theory Spec2Isabelle
  imports Complex_Main
begin

section \<open>The fused Adam kernel of ATen/native/cpu/FusedAdamKernel.cpp\<close>

text \<open>
  The kernel updates five equally long buffers in place. The embedding keeps the
  structure of the source: the two specialisations of \<open>adam_math\<close> (Half/BFloat16
  storage with float arithmetic, and float/double storage), each with its vectorised loop
  followed by its scalar loop, the shard driver \<open>adam_fused_step_impl\<close> and the
  entry point \<open>fused_adam_kernel\<close>.

  Numbers. The storage type \<open>scalar_t\<close> is the type variable \<open>'s\<close>, the arithmetic type
  \<open>opmath_t\<close> is \<open>'o\<close>, and \<open>double\<close> is \<open>'d\<close>. The arithmetic operations are not
  fixed: they are the fields of a record that every function takes as its first
  argument, so that a theorem proved for every such record holds for whatever rounding
  the machine performs, NaN and infinities included: nothing is assumed of the values,
  not even an order. The comparison \<open>a < b\<close> and one lane of \<open>at::vec::maximum\<close> are
  two more fields of the record. Each operation of the source is one operation of the
  record: the compiler is taken not to fuse a multiplication and an addition.

  Indices and sizes are natural numbers: the \<open>int64_t\<close> values of the source are not
  negative and far from overflow. The source leaves it to the caller that the buffers
  hold the elements the loops touch; the statements that depend on it say so.
\<close>

datatype ADAM_MODE = ORIGINAL | ADAMW

record ('s, 'o) fp_ops =
  to_opmath :: "'s \<Rightarrow> 'o"       \<comment> \<open>\<open>scalar_t\<close> to \<open>opmath_t\<close>: \<open>convert_to_float\<close>, or the implicit conversion\<close>
  to_scalar :: "'o \<Rightarrow> 's"       \<comment> \<open>\<open>opmath_t\<close> to \<open>scalar_t\<close>: \<open>convert_from_float\<close>, or \<open>scalar_t(x)\<close>\<close>
  fadd :: "'o \<Rightarrow> 'o \<Rightarrow> 'o"
  fsub :: "'o \<Rightarrow> 'o \<Rightarrow> 'o"
  fmul :: "'o \<Rightarrow> 'o \<Rightarrow> 'o"
  fdiv :: "'o \<Rightarrow> 'o \<Rightarrow> 'o"
  fneg :: "'o \<Rightarrow> 'o"              \<comment> \<open>unary minus\<close>
  fsqrt :: "'o \<Rightarrow> 'o"
  nonzero :: "'o \<Rightarrow> bool"         \<comment> \<open>the test \<open>x != 0.f\<close>\<close>
  minus_one :: "'o"                 \<comment> \<open>the constant \<open>-1.0\<close>\<close>
  fless :: "'o \<Rightarrow> 'o \<Rightarrow> bool"     \<comment> \<open>the comparison \<open>a < b\<close>\<close>
  fmaximum :: "'o \<Rightarrow> 'o \<Rightarrow> 'o"    \<comment> \<open>one lane of \<open>at::vec::maximum\<close>\<close>

text \<open>
  Modelled from the spec: \<open>std::max\<close> (the C++ standard library) is not among the
  sources. \<open>std::max(a, b)\<close> is \<open>(a < b) ? b : a\<close>: it returns its first argument
  unless the comparison holds, so also when an argument is NaN.
\<close>

definition std_max :: "('s, 'o) fp_ops \<Rightarrow> 'o \<Rightarrow> 'o \<Rightarrow> 'o" where
  "std_max A a b = (if fless A a b then b else a)"

text \<open>
  The scalars \<open>adam_math\<close> receives, all in \<open>opmath_t\<close>. \<open>grad_scale_ptr\<close> is the
  optional pointer: \<open>None\<close> is the null pointer, \<open>Some s\<close> a pointer to the scale \<open>s\<close>
  (the pointee is a float; \<open>float(*p)\<close> and \<open>scalar_t(*p)\<close> are value preserving for
  float and double, so the model holds the converted value).
\<close>

record 'o adam_args =
  lr :: 'o
  step_size :: 'o
  bias_correction2 :: 'o
  exp_avg_grad_coefficient :: 'o
  exp_avg_sq_grad_coefficient :: 'o
  bias_correction2_sqrt :: 'o
  eps :: 'o
  weight_decay :: 'o
  beta2 :: 'o
  amsgrad :: bool
  maximize :: bool
  grad_scale_ptr :: "'o option"

text \<open>
  The five buffers. A pointer \<open>buf + begin\<close> is the pair of the buffer and the offset
  \<open>begin\<close>; \<open>ptr[d]\<close> is element \<open>begin + d\<close> of the list. When \<open>amsgrad\<close> is false
  the source passes a null \<open>max_exp_avg_sq_ptr\<close> and never touches it; here the field is
  then simply not accessed.
\<close>

record 's bufs =
  param :: "'s list"
  exp_avg :: "'s list"
  exp_avg_sq :: "'s list"
  grad :: "'s list"
  max_exp_avg_sq :: "'s list"

subsection \<open>Vectors\<close>

text \<open>
  Modelled from the spec: \<open>at::vec::Vectorized\<close> (ATen/cpu/vec) is not among the
  sources. A vector is the function from the lane number to the value of the lane; the
  number of lanes is given where memory is touched. \<open>loadu\<close> reads consecutive
  elements, \<open>store\<close> writes \<open>n\<close> lanes back, the arithmetic operators work lane by
  lane, \<open>Vectorized(c)\<close> (here \<open>splat c\<close>) has \<open>c\<close> in every lane, and one vector of
  \<open>2 * h\<close> narrow elements converts to two vectors of \<open>h\<close> floats, the first holding
  the first half of the elements, which are packed back in the same order on store.
  \<open>maximum\<close> applies the field \<open>fmaximum\<close> to every lane; in ATen it gives NaN when
  one of its arguments is NaN, where \<open>std::max\<close> gives its first argument.
\<close>

type_synonym 'a vec = "nat \<Rightarrow> 'a"

definition loadu :: "'a list \<Rightarrow> nat \<Rightarrow> 'a vec" where
  "loadu xs q = (\<lambda>j. xs ! (q + j))"

definition store :: "'a list \<Rightarrow> nat \<Rightarrow> nat \<Rightarrow> 'a vec \<Rightarrow> 'a list" where
  "store xs q n v = take q xs @ map v [0..<n] @ drop (q + n) xs"

definition splat :: "'a \<Rightarrow> 'a vec" where
  "splat c = (\<lambda>j. c)"

definition vadd :: "('s, 'o) fp_ops \<Rightarrow> 'o vec \<Rightarrow> 'o vec \<Rightarrow> 'o vec" where
  "vadd A x y = (\<lambda>j. fadd A (x j) (y j))"

definition vsub :: "('s, 'o) fp_ops \<Rightarrow> 'o vec \<Rightarrow> 'o vec \<Rightarrow> 'o vec" where
  "vsub A x y = (\<lambda>j. fsub A (x j) (y j))"

definition vmul :: "('s, 'o) fp_ops \<Rightarrow> 'o vec \<Rightarrow> 'o vec \<Rightarrow> 'o vec" where
  "vmul A x y = (\<lambda>j. fmul A (x j) (y j))"

definition vdiv :: "('s, 'o) fp_ops \<Rightarrow> 'o vec \<Rightarrow> 'o vec \<Rightarrow> 'o vec" where
  "vdiv A x y = (\<lambda>j. fdiv A (x j) (y j))"

definition vsqrt :: "('s, 'o) fp_ops \<Rightarrow> 'o vec \<Rightarrow> 'o vec" where
  "vsqrt A x = (\<lambda>j. fsqrt A (x j))"

definition maximum :: "('s, 'o) fp_ops \<Rightarrow> 'o vec \<Rightarrow> 'o vec \<Rightarrow> 'o vec" where
  "maximum A x y = (\<lambda>j. fmaximum A (x j) (y j))"

definition convert_to_float :: "('s, 'o) fp_ops \<Rightarrow> nat \<Rightarrow> 's vec \<Rightarrow> 'o vec \<times> 'o vec" where
  "convert_to_float A h v = ((\<lambda>j. to_opmath A (v j)), (\<lambda>j. to_opmath A (v (h + j))))"

definition convert_from_float :: "('s, 'o) fp_ops \<Rightarrow> nat \<Rightarrow> 'o vec \<Rightarrow> 'o vec \<Rightarrow> 's vec" where
  "convert_from_float A h v1 v2 = (\<lambda>j. if j < h then to_scalar A (v1 j) else to_scalar A (v2 (j - h)))"

subsection \<open>The two loops of \<open>adam_math\<close>\<close>

text \<open>
  \<open>for (; d < size - (size % W); d += W) body\<close> and \<open>for (; d < size; d++) body\<close>, with
  the loop body as an argument. The first returns the index it stopped at, where the
  second resumes. The first terminates also for \<open>W = 0\<close>, where its bound is \<open>0\<close>.
\<close>

function vec_loop :: "nat \<Rightarrow> nat \<Rightarrow> (nat \<Rightarrow> 'm \<Rightarrow> 'm) \<Rightarrow> nat \<Rightarrow> 'm \<Rightarrow> nat \<times> 'm" where
  "vec_loop W sz body d M =
    (if d < sz - sz mod W then vec_loop W sz body (d + W) (body d M) else (d, M))"
  by pat_completeness auto
termination
  by (relation "measure (\<lambda>(W, sz, body, d, M). sz - d)") (auto intro!: diff_less_mono2 Nat.gr0I)

function scalar_loop :: "nat \<Rightarrow> (nat \<Rightarrow> 'm \<Rightarrow> 'm) \<Rightarrow> nat \<Rightarrow> 'm \<Rightarrow> 'm" where
  "scalar_loop sz body d M = (if d < sz then scalar_loop sz body (d + 1) (body d M) else M)"
  by pat_completeness auto
termination
  by (relation "measure (\<lambda>(sz, body, d, M). sz - d)") auto

declare vec_loop.simps [simp del] scalar_loop.simps [simp del]

subsection \<open>\<open>adam_math\<close> for Half and BFloat16 storage\<close>

text \<open>
  One iteration of the vectorised loop (source lines 48 to 106), statement by statement.
  \<open>h\<close> is \<open>fVec::size()\<close>, so that \<open>lpVec::size()\<close> is \<open>2 * h\<close>; \<open>p\<close> is the offset of
  the shard's pointers and \<open>d\<close> the loop index. The second half of the first moment is
  computed from \<open>grad_vec1\<close>, as line 75 of the source has it.
\<close>

definition wide_step_lp ::
  "('s, 'o) fp_ops \<Rightarrow> ADAM_MODE \<Rightarrow> 'o adam_args \<Rightarrow> nat \<Rightarrow> nat \<Rightarrow> nat \<Rightarrow> 's bufs \<Rightarrow> 's bufs" where
  "wide_step_lp A mode a h p d M =
    (let (param_vec1, param_vec2) = convert_to_float A h (loadu (param M) (p + d));
         (grad_vec1, grad_vec2) = convert_to_float A h (loadu (grad M) (p + d));
         (grad_vec1, grad_vec2, M) =
           (case grad_scale_ptr a of
              None \<Rightarrow> (grad_vec1, grad_vec2, M)
            | Some s \<Rightarrow>
               (let grad_vec1 = vdiv A grad_vec1 (splat s);
                    grad_vec2 = vdiv A grad_vec2 (splat s);
                    grad_vec_to_store = convert_from_float A h grad_vec1 grad_vec2
                in (grad_vec1, grad_vec2, M\<lparr>grad := store (grad M) (p + d) (2 * h) grad_vec_to_store\<rparr>)));
         (grad_vec1, grad_vec2) =
           (if maximize a
            then (vmul A grad_vec1 (splat (minus_one A)), vmul A grad_vec2 (splat (minus_one A)))
            else (grad_vec1, grad_vec2));
         (param_vec1, param_vec2, grad_vec1, grad_vec2) =
           (if nonzero A (weight_decay a) then
              (case mode of
                 ORIGINAL \<Rightarrow>
                   (param_vec1, param_vec2,
                    vadd A grad_vec1 (vmul A param_vec1 (splat (weight_decay a))),
                    vadd A grad_vec2 (vmul A param_vec2 (splat (weight_decay a))))
               | ADAMW \<Rightarrow>
                   (vsub A param_vec1 (vmul A (vmul A (splat (lr a)) (splat (weight_decay a))) param_vec1),
                    vsub A param_vec2 (vmul A (vmul A (splat (lr a)) (splat (weight_decay a))) param_vec2),
                    grad_vec1, grad_vec2))
            else (param_vec1, param_vec2, grad_vec1, grad_vec2));
         (exp_avg_vec1, exp_avg_vec2) = convert_to_float A h (loadu (exp_avg M) (p + d));
         exp_avg_vec1 = vadd A exp_avg_vec1
            (vmul A (splat (exp_avg_grad_coefficient a)) (vsub A grad_vec1 exp_avg_vec1));
         exp_avg_vec2 = vadd A exp_avg_vec2
            (vmul A (splat (exp_avg_grad_coefficient a)) (vsub A grad_vec1 exp_avg_vec2));
         (exp_avg_sq_vec1, exp_avg_sq_vec2) = convert_to_float A h (loadu (exp_avg_sq M) (p + d));
         exp_avg_sq_vec1 = vadd A (vmul A exp_avg_sq_vec1 (splat (beta2 a)))
            (vmul A (vmul A (splat (exp_avg_sq_grad_coefficient a)) grad_vec1) grad_vec1);
         exp_avg_sq_vec2 = vadd A (vmul A exp_avg_sq_vec2 (splat (beta2 a)))
            (vmul A (vmul A (splat (exp_avg_sq_grad_coefficient a)) grad_vec2) grad_vec2);
         M = M\<lparr>exp_avg := store (exp_avg M) (p + d) (2 * h)
                 (convert_from_float A h exp_avg_vec1 exp_avg_vec2)\<rparr>;
         M = M\<lparr>exp_avg_sq := store (exp_avg_sq M) (p + d) (2 * h)
                 (convert_from_float A h exp_avg_sq_vec1 exp_avg_sq_vec2)\<rparr>;
         (denom_vec1, denom_vec2, M) =
           (if amsgrad a then
              (let (max_exp_avg_sq_vec1, max_exp_avg_sq_vec2) =
                     convert_to_float A h (loadu (max_exp_avg_sq M) (p + d));
                   max_exp_avg_sq_vec1 = maximum A max_exp_avg_sq_vec1 exp_avg_sq_vec1;
                   max_exp_avg_sq_vec2 = maximum A max_exp_avg_sq_vec2 exp_avg_sq_vec2;
                   M = M\<lparr>max_exp_avg_sq := store (max_exp_avg_sq M) (p + d) (2 * h)
                          (convert_from_float A h max_exp_avg_sq_vec1 max_exp_avg_sq_vec2)\<rparr>
               in (vadd A (vdiv A (vsqrt A max_exp_avg_sq_vec1) (splat (bias_correction2_sqrt a))) (splat (eps a)),
                   vadd A (vdiv A (vsqrt A max_exp_avg_sq_vec2) (splat (bias_correction2_sqrt a))) (splat (eps a)),
                   M))
            else
              (vadd A (vdiv A (vsqrt A exp_avg_sq_vec1) (splat (bias_correction2_sqrt a))) (splat (eps a)),
               vadd A (vdiv A (vsqrt A exp_avg_sq_vec2) (splat (bias_correction2_sqrt a))) (splat (eps a)),
               M));
         param_vec1 = vsub A param_vec1 (vdiv A (vmul A (splat (step_size a)) exp_avg_vec1) denom_vec1);
         param_vec2 = vsub A param_vec2 (vdiv A (vmul A (splat (step_size a)) exp_avg_vec2) denom_vec2)
     in M\<lparr>param := store (param M) (p + d) (2 * h) (convert_from_float A h param_vec1 param_vec2)\<rparr>)"

text \<open>One iteration of the scalar loop (source lines 110 to 144).\<close>

definition tail_step_lp ::
  "('s, 'o) fp_ops \<Rightarrow> ADAM_MODE \<Rightarrow> 'o adam_args \<Rightarrow> nat \<Rightarrow> nat \<Rightarrow> 's bufs \<Rightarrow> 's bufs" where
  "tail_step_lp A mode a p d M =
    (let grad_val = to_opmath A (grad M ! (p + d));
         param_val = to_opmath A (param M ! (p + d));
         (grad_val, M) =
           (case grad_scale_ptr a of
              None \<Rightarrow> (grad_val, M)
            | Some s \<Rightarrow>
               (let grad_val = fdiv A (to_opmath A (grad M ! (p + d))) s;
                    grad_val_to_store = to_scalar A grad_val
                in (grad_val, M\<lparr>grad := (grad M)[p + d := grad_val_to_store]\<rparr>)));
         grad_val = (if maximize a then fneg A grad_val else grad_val);
         (grad_val, param_val) =
           (if nonzero A (weight_decay a) then
              (case mode of
                 ORIGINAL \<Rightarrow> (fadd A grad_val (fmul A (to_opmath A (param M ! (p + d))) (weight_decay a)), param_val)
               | ADAMW \<Rightarrow> (grad_val, fsub A param_val (fmul A (fmul A (lr a) (weight_decay a)) param_val)))
            else (grad_val, param_val));
         exp_avg_var = to_opmath A (exp_avg M ! (p + d));
         exp_avg_var = fadd A exp_avg_var (fmul A (exp_avg_grad_coefficient a) (fsub A grad_val exp_avg_var));
         M = M\<lparr>exp_avg := (exp_avg M)[p + d := to_scalar A exp_avg_var]\<rparr>;
         exp_avg_sq_var = to_opmath A (exp_avg_sq M ! (p + d));
         exp_avg_sq_var = fmul A exp_avg_sq_var (beta2 a);
         exp_avg_sq_var = fadd A exp_avg_sq_var (fmul A (fmul A (exp_avg_sq_grad_coefficient a) grad_val) grad_val);
         M = M\<lparr>exp_avg_sq := (exp_avg_sq M)[p + d := to_scalar A exp_avg_sq_var]\<rparr>;
         (demon_val, M) =
           (if amsgrad a then
              (let max_exp_avg_sq_var = to_opmath A (max_exp_avg_sq M ! (p + d));
                   max_exp_avg_sq_var = std_max A max_exp_avg_sq_var exp_avg_sq_var;
                   M = M\<lparr>max_exp_avg_sq := (max_exp_avg_sq M)[p + d := to_scalar A max_exp_avg_sq_var]\<rparr>
               in (fadd A (fdiv A (fsqrt A max_exp_avg_sq_var) (bias_correction2_sqrt a)) (eps a), M))
            else (fadd A (fdiv A (fsqrt A exp_avg_sq_var) (bias_correction2_sqrt a)) (eps a), M))
     in M\<lparr>param := (param M)[p + d := to_scalar A (fsub A param_val (fdiv A (fmul A (step_size a) exp_avg_var) demon_val))]\<rparr>)"

definition adam_math_lp ::
  "('s, 'o) fp_ops \<Rightarrow> ADAM_MODE \<Rightarrow> 'o adam_args \<Rightarrow> nat \<Rightarrow> nat \<Rightarrow> nat \<Rightarrow> 's bufs \<Rightarrow> 's bufs" where
  "adam_math_lp A mode a h p sz M =
    (let (d, M) = vec_loop (2 * h) sz (wide_step_lp A mode a h p) 0 M
     in scalar_loop sz (tail_step_lp A mode a p) d M)"

subsection \<open>\<open>adam_math\<close> for float and double storage\<close>

text \<open>
  Here \<open>scalar_t\<close> and \<open>opmath_t\<close> are the same type, so the buffers hold \<open>'o\<close> and no
  conversion takes place. \<open>w\<close> is \<open>Vec::size()\<close>. One iteration of the vectorised loop
  (source lines 177 to 213):
\<close>

definition wide_step_fp ::
  "('s, 'o) fp_ops \<Rightarrow> ADAM_MODE \<Rightarrow> 'o adam_args \<Rightarrow> nat \<Rightarrow> nat \<Rightarrow> nat \<Rightarrow> 'o bufs \<Rightarrow> 'o bufs" where
  "wide_step_fp A mode a w p d M =
    (let param_vec = loadu (param M) (p + d);
         grad_vec = loadu (grad M) (p + d);
         (grad_vec, M) =
           (case grad_scale_ptr a of
              None \<Rightarrow> (grad_vec, M)
            | Some s \<Rightarrow>
               (let grad_vec = vdiv A grad_vec (splat s);
                    grad_vec_to_store = grad_vec
                in (grad_vec, M\<lparr>grad := store (grad M) (p + d) w grad_vec_to_store\<rparr>)));
         grad_vec = (if maximize a then vmul A grad_vec (splat (minus_one A)) else grad_vec);
         (param_vec, grad_vec) =
           (if nonzero A (weight_decay a) then
              (case mode of
                 ORIGINAL \<Rightarrow> (param_vec, vadd A grad_vec (vmul A param_vec (splat (weight_decay a))))
               | ADAMW \<Rightarrow>
                   (vsub A param_vec (vmul A (vmul A (splat (lr a)) (splat (weight_decay a))) param_vec),
                    grad_vec))
            else (param_vec, grad_vec));
         exp_avg_vec = loadu (exp_avg M) (p + d);
         exp_avg_vec = vadd A exp_avg_vec
            (vmul A (splat (exp_avg_grad_coefficient a)) (vsub A grad_vec exp_avg_vec));
         exp_avg_sq_vec = vadd A (vmul A (loadu (exp_avg_sq M) (p + d)) (splat (beta2 a)))
            (vmul A (vmul A (splat (exp_avg_sq_grad_coefficient a)) grad_vec) grad_vec);
         M = M\<lparr>exp_avg := store (exp_avg M) (p + d) w exp_avg_vec\<rparr>;
         M = M\<lparr>exp_avg_sq := store (exp_avg_sq M) (p + d) w exp_avg_sq_vec\<rparr>;
         (denom_vec, M) =
           (if amsgrad a then
              (let max_exp_avg_sq_vec = maximum A (loadu (max_exp_avg_sq M) (p + d)) exp_avg_sq_vec;
                   M = M\<lparr>max_exp_avg_sq := store (max_exp_avg_sq M) (p + d) w max_exp_avg_sq_vec\<rparr>
               in (vadd A (vdiv A (vsqrt A max_exp_avg_sq_vec) (splat (bias_correction2_sqrt a))) (splat (eps a)),
                   M))
            else
              (vadd A (vdiv A (vsqrt A exp_avg_sq_vec) (splat (bias_correction2_sqrt a))) (splat (eps a)), M));
         param_vec = vsub A param_vec (vdiv A (vmul A (splat (step_size a)) exp_avg_vec) denom_vec)
     in M\<lparr>param := store (param M) (p + d) w param_vec\<rparr>)"

text \<open>
  One iteration of the scalar loop (source lines 217 to 244). It works on the memory
  cells themselves: with AdamW the decayed parameter is written to \<open>param_ptr[d]\<close> before
  the moments are updated.
\<close>

definition tail_step_fp ::
  "('s, 'o) fp_ops \<Rightarrow> ADAM_MODE \<Rightarrow> 'o adam_args \<Rightarrow> nat \<Rightarrow> nat \<Rightarrow> 'o bufs \<Rightarrow> 'o bufs" where
  "tail_step_fp A mode a p d M =
    (let grad_val = grad M ! (p + d);
         (grad_val, M) =
           (case grad_scale_ptr a of
              None \<Rightarrow> (grad_val, M)
            | Some s \<Rightarrow>
               (let grad_val = fdiv A (grad M ! (p + d)) s;
                    grad_val_to_store = grad_val
                in (grad_val, M\<lparr>grad := (grad M)[p + d := grad_val_to_store]\<rparr>)));
         grad_val = (if maximize a then fneg A grad_val else grad_val);
         (grad_val, M) =
           (if nonzero A (weight_decay a) then
              (case mode of
                 ORIGINAL \<Rightarrow> (fadd A grad_val (fmul A (param M ! (p + d)) (weight_decay a)), M)
               | ADAMW \<Rightarrow>
                   (grad_val,
                    M\<lparr>param := (param M)[p + d :=
                        fsub A (param M ! (p + d)) (fmul A (fmul A (lr a) (weight_decay a)) (param M ! (p + d)))]\<rparr>))
            else (grad_val, M));
         M = M\<lparr>exp_avg := (exp_avg M)[p + d :=
               fadd A (exp_avg M ! (p + d))
                 (fmul A (exp_avg_grad_coefficient a) (fsub A grad_val (exp_avg M ! (p + d))))]\<rparr>;
         M = M\<lparr>exp_avg_sq := (exp_avg_sq M)[p + d := fmul A (exp_avg_sq M ! (p + d)) (beta2 a)]\<rparr>;
         M = M\<lparr>exp_avg_sq := (exp_avg_sq M)[p + d :=
               fadd A (exp_avg_sq M ! (p + d))
                 (fmul A (fmul A (exp_avg_sq_grad_coefficient a) grad_val) grad_val)]\<rparr>;
         (demon_val, M) =
           (if amsgrad a then
              (let M = M\<lparr>max_exp_avg_sq := (max_exp_avg_sq M)[p + d :=
                         std_max A (max_exp_avg_sq M ! (p + d)) (exp_avg_sq M ! (p + d))]\<rparr>
               in (fadd A (fdiv A (fsqrt A (max_exp_avg_sq M ! (p + d))) (bias_correction2_sqrt a)) (eps a), M))
            else (fadd A (fdiv A (fsqrt A (exp_avg_sq M ! (p + d))) (bias_correction2_sqrt a)) (eps a), M))
     in M\<lparr>param := (param M)[p + d :=
           fsub A (param M ! (p + d)) (fdiv A (fmul A (step_size a) (exp_avg M ! (p + d))) demon_val)]\<rparr>)"

definition adam_math_fp ::
  "('s, 'o) fp_ops \<Rightarrow> ADAM_MODE \<Rightarrow> 'o adam_args \<Rightarrow> nat \<Rightarrow> nat \<Rightarrow> nat \<Rightarrow> 'o bufs \<Rightarrow> 'o bufs" where
  "adam_math_fp A mode a w p sz M =
    (let (d, M) = vec_loop w sz (wide_step_fp A mode a w p) 0 M
     in scalar_loop sz (tail_step_fp A mode a p) d M)"

subsection \<open>The shard driver \<open>adam_fused_step_impl\<close>\<close>

text \<open>
  Modelled from the spec: \<open>at::parallel_for\<close> (ATen/Parallel.h) is not among the sources.
  It splits \<open>[0, N)\<close> into contiguous shards \<open>[begin, end)\<close> and calls the body on each;
  which shards it chooses is up to the runtime, so the list of shards is an argument.
  The shards write disjoint indices, so the body is run on them one after the other.
  \<open>is_partition b N shards\<close> says that the shards follow each other from \<open>b\<close> and cover
  \<open>[b, N)\<close> exactly.
\<close>

fun parallel_for :: "(nat \<times> nat) list \<Rightarrow> (nat \<Rightarrow> nat \<Rightarrow> 'm \<Rightarrow> 'm) \<Rightarrow> 'm \<Rightarrow> 'm" where
  "parallel_for [] f M = M"
| "parallel_for ((begin, end) # shards) f M = parallel_for shards f (f begin end M)"

fun is_partition :: "nat \<Rightarrow> nat \<Rightarrow> (nat \<times> nat) list \<Rightarrow> bool" where
  "is_partition b N [] = (b = N)"
| "is_partition b N ((begin, end) # shards) = (begin = b \<and> begin \<le> end \<and> is_partition end N shards)"

text \<open>
  The arithmetic on \<open>double\<close> that precedes the loop, and the hyperparameters as the entry
  point receives them. \<open>narrow\<close> is the conversion from \<open>double\<close> to \<open>opmath_t\<close>;
  \<open>hp_step\<close> is the value of \<open>state_step.item<float>()\<close>, promoted to \<open>double\<close> by
  \<open>std::pow\<close>.
\<close>

record ('d, 'o) dbl_ops =
  dsub :: "'d \<Rightarrow> 'd \<Rightarrow> 'd"
  ddiv :: "'d \<Rightarrow> 'd \<Rightarrow> 'd"
  dpow :: "'d \<Rightarrow> 'd \<Rightarrow> 'd"
  d_one :: "'d"                   \<comment> \<open>the constant \<open>1\<close>\<close>
  narrow :: "'d \<Rightarrow> 'o"

record 'd hparams =
  hp_step :: 'd
  hp_lr :: 'd
  hp_beta1 :: 'd
  hp_beta2 :: 'd
  hp_weight_decay :: 'd
  hp_eps :: 'd
  hp_amsgrad :: bool
  hp_maximize :: bool

text \<open>
  Source lines 274 to 279 and the argument list of the call at lines 293 to 312: the
  scalars every shard is called with.
\<close>

definition step_scalars ::
  "('d, 'o) dbl_ops \<Rightarrow> ('s, 'o) fp_ops \<Rightarrow> 'd hparams \<Rightarrow> 'o option \<Rightarrow> 'o adam_args" where
  "step_scalars D A hp gs =
    (let bias_correction1 = dsub D (d_one D) (dpow D (hp_beta1 hp) (hp_step hp));
         step_size = narrow D (ddiv D (hp_lr hp) bias_correction1);
         bias_correction2 = narrow D (dsub D (d_one D) (dpow D (hp_beta2 hp) (hp_step hp)));
         exp_avg_grad_coefficient = narrow D (dsub D (d_one D) (hp_beta1 hp));
         exp_avg_sq_grad_coefficient = narrow D (dsub D (d_one D) (hp_beta2 hp));
         bias_correction2_sqrt = fsqrt A bias_correction2
     in \<lparr>lr = narrow D (hp_lr hp),
         step_size = step_size,
         bias_correction2 = bias_correction2,
         exp_avg_grad_coefficient = exp_avg_grad_coefficient,
         exp_avg_sq_grad_coefficient = exp_avg_sq_grad_coefficient,
         bias_correction2_sqrt = bias_correction2_sqrt,
         eps = narrow D (hp_eps hp),
         weight_decay = narrow D (hp_weight_decay hp),
         beta2 = narrow D (hp_beta2 hp),
         amsgrad = hp_amsgrad hp,
         maximize = hp_maximize hp,
         grad_scale_ptr = gs\<rparr>)"

definition adam_fused_step_impl_lp ::
  "('d, 'o) dbl_ops \<Rightarrow> ('s, 'o) fp_ops \<Rightarrow> ADAM_MODE \<Rightarrow> nat \<Rightarrow> (nat \<times> nat) list \<Rightarrow>
   'd hparams \<Rightarrow> 'o option \<Rightarrow> 's bufs \<Rightarrow> 's bufs" where
  "adam_fused_step_impl_lp D A mode h shards hp gs M =
    parallel_for shards
      (\<lambda>begin end. adam_math_lp A mode (step_scalars D A hp gs) h begin (end - begin)) M"

definition adam_fused_step_impl_fp ::
  "('d, 'o) dbl_ops \<Rightarrow> ('s, 'o) fp_ops \<Rightarrow> ADAM_MODE \<Rightarrow> nat \<Rightarrow> (nat \<times> nat) list \<Rightarrow>
   'd hparams \<Rightarrow> 'o option \<Rightarrow> 'o bufs \<Rightarrow> 'o bufs" where
  "adam_fused_step_impl_fp D A mode w shards hp gs M =
    parallel_for shards
      (\<lambda>begin end. adam_math_fp A mode (step_scalars D A hp gs) w begin (end - begin)) M"

subsection \<open>The entry point \<open>fused_adam_kernel\<close>\<close>

text \<open>
  Modelled from the spec: \<open>at::Tensor\<close> is not among the sources. A tensor is a view of
  a storage: \<open>t_data\<close> is the memory from \<open>data_ptr()\<close> on, and the tensor's elements
  are the \<open>t_numel\<close> cells at distance \<open>t_stride\<close> from each other (one dimension is
  enough to tell a contiguous tensor from one that is not). \<open>contiguous\<close> returns the
  tensor itself when it is contiguous and a fresh tensor holding the elements otherwise.
\<close>

record 's tensor =
  t_data :: "'s list"
  t_numel :: nat
  t_stride :: nat

definition elements :: "'s tensor \<Rightarrow> 's list" where
  "elements t = map (\<lambda>i. t_data t ! (i * t_stride t)) [0..<t_numel t]"

definition is_contiguous :: "'s tensor \<Rightarrow> bool" where
  "is_contiguous t \<longleftrightarrow> t_stride t = 1 \<or> t_numel t \<le> 1"

definition contiguous :: "'s tensor \<Rightarrow> 's tensor" where
  "contiguous t = (if is_contiguous t then t else \<lparr>t_data = elements t, t_numel = t_numel t, t_stride = 1\<rparr>)"

text \<open>
  Source lines 333 to 341, for the two groups of storage types the dispatch macro
  instantiates the lambda with. \<open>grad_contiguous\<close> is computed and not mentioned again:
  \<open>adam_fused_step_impl\<close> is called with \<open>grad\<close>, and takes \<open>grad.data_ptr()\<close>. The
  result is the memory behind the five data pointers after the call; \<open>shards\<close> are the
  shards \<open>parallel_for\<close> forms of \<open>[0, param.numel())\<close>.
\<close>

definition fused_adam_kernel_lp ::
  "('d, 'o) dbl_ops \<Rightarrow> ('s, 'o) fp_ops \<Rightarrow> nat \<Rightarrow> (nat \<times> nat) list \<Rightarrow>
   's tensor \<Rightarrow> 's tensor \<Rightarrow> 's tensor \<Rightarrow> 's tensor \<Rightarrow> 's tensor \<Rightarrow>
   'd hparams \<Rightarrow> 'o option \<Rightarrow> ADAM_MODE \<Rightarrow> 's bufs" where
  "fused_adam_kernel_lp D A h shards param_t grad_t exp_avg_t exp_avg_sq_t max_exp_avg_sq_t hp gs adam_mode =
    (let grad_contiguous = contiguous grad_t;
         M = \<lparr>param = t_data param_t, exp_avg = t_data exp_avg_t, exp_avg_sq = t_data exp_avg_sq_t,
              grad = t_data grad_t, max_exp_avg_sq = t_data max_exp_avg_sq_t\<rparr>
     in if adam_mode = ORIGINAL
        then adam_fused_step_impl_lp D A ORIGINAL h shards hp gs M
        else adam_fused_step_impl_lp D A ADAMW h shards hp gs M)"

definition fused_adam_kernel_fp ::
  "('d, 'o) dbl_ops \<Rightarrow> ('s, 'o) fp_ops \<Rightarrow> nat \<Rightarrow> (nat \<times> nat) list \<Rightarrow>
   'o tensor \<Rightarrow> 'o tensor \<Rightarrow> 'o tensor \<Rightarrow> 'o tensor \<Rightarrow> 'o tensor \<Rightarrow>
   'd hparams \<Rightarrow> 'o option \<Rightarrow> ADAM_MODE \<Rightarrow> 'o bufs" where
  "fused_adam_kernel_fp D A w shards param_t grad_t exp_avg_t exp_avg_sq_t max_exp_avg_sq_t hp gs adam_mode =
    (let grad_contiguous = contiguous grad_t;
         M = \<lparr>param = t_data param_t, exp_avg = t_data exp_avg_t, exp_avg_sq = t_data exp_avg_sq_t,
              grad = t_data grad_t, max_exp_avg_sq = t_data max_exp_avg_sq_t\<rparr>
     in if adam_mode = ORIGINAL
        then adam_fused_step_impl_fp D A ORIGINAL w shards hp gs M
        else adam_fused_step_impl_fp D A ADAMW w shards hp gs M)"

subsection \<open>The kernel without the weight-decay branch\<close>

text \<open>
  The variant of the kernel that the zero-decay identity compares with: the four loop
  bodies with the statement \<open>if (weight_decay != 0.f) { ... }\<close> deleted, everything
  else as in the source, and \<open>adam_math\<close> and \<open>adam_fused_step_impl\<close> built from
  them in the same way.
\<close>

definition wide_step_lp_nodecay ::
  "('s, 'o) fp_ops \<Rightarrow> ADAM_MODE \<Rightarrow> 'o adam_args \<Rightarrow> nat \<Rightarrow> nat \<Rightarrow> nat \<Rightarrow> 's bufs \<Rightarrow> 's bufs" where
  "wide_step_lp_nodecay A mode a h p d M =
    (let (param_vec1, param_vec2) = convert_to_float A h (loadu (param M) (p + d));
         (grad_vec1, grad_vec2) = convert_to_float A h (loadu (grad M) (p + d));
         (grad_vec1, grad_vec2, M) =
           (case grad_scale_ptr a of
              None \<Rightarrow> (grad_vec1, grad_vec2, M)
            | Some s \<Rightarrow>
               (let grad_vec1 = vdiv A grad_vec1 (splat s);
                    grad_vec2 = vdiv A grad_vec2 (splat s);
                    grad_vec_to_store = convert_from_float A h grad_vec1 grad_vec2
                in (grad_vec1, grad_vec2, M\<lparr>grad := store (grad M) (p + d) (2 * h) grad_vec_to_store\<rparr>)));
         (grad_vec1, grad_vec2) =
           (if maximize a
            then (vmul A grad_vec1 (splat (minus_one A)), vmul A grad_vec2 (splat (minus_one A)))
            else (grad_vec1, grad_vec2));
         (exp_avg_vec1, exp_avg_vec2) = convert_to_float A h (loadu (exp_avg M) (p + d));
         exp_avg_vec1 = vadd A exp_avg_vec1
            (vmul A (splat (exp_avg_grad_coefficient a)) (vsub A grad_vec1 exp_avg_vec1));
         exp_avg_vec2 = vadd A exp_avg_vec2
            (vmul A (splat (exp_avg_grad_coefficient a)) (vsub A grad_vec1 exp_avg_vec2));
         (exp_avg_sq_vec1, exp_avg_sq_vec2) = convert_to_float A h (loadu (exp_avg_sq M) (p + d));
         exp_avg_sq_vec1 = vadd A (vmul A exp_avg_sq_vec1 (splat (beta2 a)))
            (vmul A (vmul A (splat (exp_avg_sq_grad_coefficient a)) grad_vec1) grad_vec1);
         exp_avg_sq_vec2 = vadd A (vmul A exp_avg_sq_vec2 (splat (beta2 a)))
            (vmul A (vmul A (splat (exp_avg_sq_grad_coefficient a)) grad_vec2) grad_vec2);
         M = M\<lparr>exp_avg := store (exp_avg M) (p + d) (2 * h)
                 (convert_from_float A h exp_avg_vec1 exp_avg_vec2)\<rparr>;
         M = M\<lparr>exp_avg_sq := store (exp_avg_sq M) (p + d) (2 * h)
                 (convert_from_float A h exp_avg_sq_vec1 exp_avg_sq_vec2)\<rparr>;
         (denom_vec1, denom_vec2, M) =
           (if amsgrad a then
              (let (max_exp_avg_sq_vec1, max_exp_avg_sq_vec2) =
                     convert_to_float A h (loadu (max_exp_avg_sq M) (p + d));
                   max_exp_avg_sq_vec1 = maximum A max_exp_avg_sq_vec1 exp_avg_sq_vec1;
                   max_exp_avg_sq_vec2 = maximum A max_exp_avg_sq_vec2 exp_avg_sq_vec2;
                   M = M\<lparr>max_exp_avg_sq := store (max_exp_avg_sq M) (p + d) (2 * h)
                          (convert_from_float A h max_exp_avg_sq_vec1 max_exp_avg_sq_vec2)\<rparr>
               in (vadd A (vdiv A (vsqrt A max_exp_avg_sq_vec1) (splat (bias_correction2_sqrt a))) (splat (eps a)),
                   vadd A (vdiv A (vsqrt A max_exp_avg_sq_vec2) (splat (bias_correction2_sqrt a))) (splat (eps a)),
                   M))
            else
              (vadd A (vdiv A (vsqrt A exp_avg_sq_vec1) (splat (bias_correction2_sqrt a))) (splat (eps a)),
               vadd A (vdiv A (vsqrt A exp_avg_sq_vec2) (splat (bias_correction2_sqrt a))) (splat (eps a)),
               M));
         param_vec1 = vsub A param_vec1 (vdiv A (vmul A (splat (step_size a)) exp_avg_vec1) denom_vec1);
         param_vec2 = vsub A param_vec2 (vdiv A (vmul A (splat (step_size a)) exp_avg_vec2) denom_vec2)
     in M\<lparr>param := store (param M) (p + d) (2 * h) (convert_from_float A h param_vec1 param_vec2)\<rparr>)"

definition tail_step_lp_nodecay ::
  "('s, 'o) fp_ops \<Rightarrow> ADAM_MODE \<Rightarrow> 'o adam_args \<Rightarrow> nat \<Rightarrow> nat \<Rightarrow> 's bufs \<Rightarrow> 's bufs" where
  "tail_step_lp_nodecay A mode a p d M =
    (let grad_val = to_opmath A (grad M ! (p + d));
         param_val = to_opmath A (param M ! (p + d));
         (grad_val, M) =
           (case grad_scale_ptr a of
              None \<Rightarrow> (grad_val, M)
            | Some s \<Rightarrow>
               (let grad_val = fdiv A (to_opmath A (grad M ! (p + d))) s;
                    grad_val_to_store = to_scalar A grad_val
                in (grad_val, M\<lparr>grad := (grad M)[p + d := grad_val_to_store]\<rparr>)));
         grad_val = (if maximize a then fneg A grad_val else grad_val);
         exp_avg_var = to_opmath A (exp_avg M ! (p + d));
         exp_avg_var = fadd A exp_avg_var (fmul A (exp_avg_grad_coefficient a) (fsub A grad_val exp_avg_var));
         M = M\<lparr>exp_avg := (exp_avg M)[p + d := to_scalar A exp_avg_var]\<rparr>;
         exp_avg_sq_var = to_opmath A (exp_avg_sq M ! (p + d));
         exp_avg_sq_var = fmul A exp_avg_sq_var (beta2 a);
         exp_avg_sq_var = fadd A exp_avg_sq_var (fmul A (fmul A (exp_avg_sq_grad_coefficient a) grad_val) grad_val);
         M = M\<lparr>exp_avg_sq := (exp_avg_sq M)[p + d := to_scalar A exp_avg_sq_var]\<rparr>;
         (demon_val, M) =
           (if amsgrad a then
              (let max_exp_avg_sq_var = to_opmath A (max_exp_avg_sq M ! (p + d));
                   max_exp_avg_sq_var = std_max A max_exp_avg_sq_var exp_avg_sq_var;
                   M = M\<lparr>max_exp_avg_sq := (max_exp_avg_sq M)[p + d := to_scalar A max_exp_avg_sq_var]\<rparr>
               in (fadd A (fdiv A (fsqrt A max_exp_avg_sq_var) (bias_correction2_sqrt a)) (eps a), M))
            else (fadd A (fdiv A (fsqrt A exp_avg_sq_var) (bias_correction2_sqrt a)) (eps a), M))
     in M\<lparr>param := (param M)[p + d := to_scalar A (fsub A param_val (fdiv A (fmul A (step_size a) exp_avg_var) demon_val))]\<rparr>)"

definition wide_step_fp_nodecay ::
  "('s, 'o) fp_ops \<Rightarrow> ADAM_MODE \<Rightarrow> 'o adam_args \<Rightarrow> nat \<Rightarrow> nat \<Rightarrow> nat \<Rightarrow> 'o bufs \<Rightarrow> 'o bufs" where
  "wide_step_fp_nodecay A mode a w p d M =
    (let param_vec = loadu (param M) (p + d);
         grad_vec = loadu (grad M) (p + d);
         (grad_vec, M) =
           (case grad_scale_ptr a of
              None \<Rightarrow> (grad_vec, M)
            | Some s \<Rightarrow>
               (let grad_vec = vdiv A grad_vec (splat s);
                    grad_vec_to_store = grad_vec
                in (grad_vec, M\<lparr>grad := store (grad M) (p + d) w grad_vec_to_store\<rparr>)));
         grad_vec = (if maximize a then vmul A grad_vec (splat (minus_one A)) else grad_vec);
         exp_avg_vec = loadu (exp_avg M) (p + d);
         exp_avg_vec = vadd A exp_avg_vec
            (vmul A (splat (exp_avg_grad_coefficient a)) (vsub A grad_vec exp_avg_vec));
         exp_avg_sq_vec = vadd A (vmul A (loadu (exp_avg_sq M) (p + d)) (splat (beta2 a)))
            (vmul A (vmul A (splat (exp_avg_sq_grad_coefficient a)) grad_vec) grad_vec);
         M = M\<lparr>exp_avg := store (exp_avg M) (p + d) w exp_avg_vec\<rparr>;
         M = M\<lparr>exp_avg_sq := store (exp_avg_sq M) (p + d) w exp_avg_sq_vec\<rparr>;
         (denom_vec, M) =
           (if amsgrad a then
              (let max_exp_avg_sq_vec = maximum A (loadu (max_exp_avg_sq M) (p + d)) exp_avg_sq_vec;
                   M = M\<lparr>max_exp_avg_sq := store (max_exp_avg_sq M) (p + d) w max_exp_avg_sq_vec\<rparr>
               in (vadd A (vdiv A (vsqrt A max_exp_avg_sq_vec) (splat (bias_correction2_sqrt a))) (splat (eps a)),
                   M))
            else
              (vadd A (vdiv A (vsqrt A exp_avg_sq_vec) (splat (bias_correction2_sqrt a))) (splat (eps a)), M));
         param_vec = vsub A param_vec (vdiv A (vmul A (splat (step_size a)) exp_avg_vec) denom_vec)
     in M\<lparr>param := store (param M) (p + d) w param_vec\<rparr>)"

definition tail_step_fp_nodecay ::
  "('s, 'o) fp_ops \<Rightarrow> ADAM_MODE \<Rightarrow> 'o adam_args \<Rightarrow> nat \<Rightarrow> nat \<Rightarrow> 'o bufs \<Rightarrow> 'o bufs" where
  "tail_step_fp_nodecay A mode a p d M =
    (let grad_val = grad M ! (p + d);
         (grad_val, M) =
           (case grad_scale_ptr a of
              None \<Rightarrow> (grad_val, M)
            | Some s \<Rightarrow>
               (let grad_val = fdiv A (grad M ! (p + d)) s;
                    grad_val_to_store = grad_val
                in (grad_val, M\<lparr>grad := (grad M)[p + d := grad_val_to_store]\<rparr>)));
         grad_val = (if maximize a then fneg A grad_val else grad_val);
         M = M\<lparr>exp_avg := (exp_avg M)[p + d :=
               fadd A (exp_avg M ! (p + d))
                 (fmul A (exp_avg_grad_coefficient a) (fsub A grad_val (exp_avg M ! (p + d))))]\<rparr>;
         M = M\<lparr>exp_avg_sq := (exp_avg_sq M)[p + d := fmul A (exp_avg_sq M ! (p + d)) (beta2 a)]\<rparr>;
         M = M\<lparr>exp_avg_sq := (exp_avg_sq M)[p + d :=
               fadd A (exp_avg_sq M ! (p + d))
                 (fmul A (fmul A (exp_avg_sq_grad_coefficient a) grad_val) grad_val)]\<rparr>;
         (demon_val, M) =
           (if amsgrad a then
              (let M = M\<lparr>max_exp_avg_sq := (max_exp_avg_sq M)[p + d :=
                         std_max A (max_exp_avg_sq M ! (p + d)) (exp_avg_sq M ! (p + d))]\<rparr>
               in (fadd A (fdiv A (fsqrt A (max_exp_avg_sq M ! (p + d))) (bias_correction2_sqrt a)) (eps a), M))
            else (fadd A (fdiv A (fsqrt A (exp_avg_sq M ! (p + d))) (bias_correction2_sqrt a)) (eps a), M))
     in M\<lparr>param := (param M)[p + d :=
           fsub A (param M ! (p + d)) (fdiv A (fmul A (step_size a) (exp_avg M ! (p + d))) demon_val)]\<rparr>)"

definition adam_math_lp_nodecay ::
  "('s, 'o) fp_ops \<Rightarrow> ADAM_MODE \<Rightarrow> 'o adam_args \<Rightarrow> nat \<Rightarrow> nat \<Rightarrow> nat \<Rightarrow> 's bufs \<Rightarrow> 's bufs" where
  "adam_math_lp_nodecay A mode a h p sz M =
    (let (d, M) = vec_loop (2 * h) sz (wide_step_lp_nodecay A mode a h p) 0 M
     in scalar_loop sz (tail_step_lp_nodecay A mode a p) d M)"

definition adam_math_fp_nodecay ::
  "('s, 'o) fp_ops \<Rightarrow> ADAM_MODE \<Rightarrow> 'o adam_args \<Rightarrow> nat \<Rightarrow> nat \<Rightarrow> nat \<Rightarrow> 'o bufs \<Rightarrow> 'o bufs" where
  "adam_math_fp_nodecay A mode a w p sz M =
    (let (d, M) = vec_loop w sz (wide_step_fp_nodecay A mode a w p) 0 M
     in scalar_loop sz (tail_step_fp_nodecay A mode a p) d M)"

definition adam_fused_step_impl_lp_nodecay ::
  "('d, 'o) dbl_ops \<Rightarrow> ('s, 'o) fp_ops \<Rightarrow> ADAM_MODE \<Rightarrow> nat \<Rightarrow> (nat \<times> nat) list \<Rightarrow>
   'd hparams \<Rightarrow> 'o option \<Rightarrow> 's bufs \<Rightarrow> 's bufs" where
  "adam_fused_step_impl_lp_nodecay D A mode h shards hp gs M =
    parallel_for shards
      (\<lambda>begin end. adam_math_lp_nodecay A mode (step_scalars D A hp gs) h begin (end - begin)) M"

definition adam_fused_step_impl_fp_nodecay ::
  "('d, 'o) dbl_ops \<Rightarrow> ('s, 'o) fp_ops \<Rightarrow> ADAM_MODE \<Rightarrow> nat \<Rightarrow> (nat \<times> nat) list \<Rightarrow>
   'd hparams \<Rightarrow> 'o option \<Rightarrow> 'o bufs \<Rightarrow> 'o bufs" where
  "adam_fused_step_impl_fp_nodecay D A mode w shards hp gs M =
    parallel_for shards
      (\<lambda>begin end. adam_math_fp_nodecay A mode (step_scalars D A hp gs) w begin (end - begin)) M"


section \<open>What the kernel computes for one element\<close>

text \<open>
  The loops touch, at index \<open>i\<close>, the cells \<open>i\<close> of the five buffers. A \<open>cell\<close>
  collects them; \<open>fits ams n M\<close> says that the buffers have \<open>n\<close> elements each (the
  fifth only when \<open>amsgrad\<close> is set, since it may be absent otherwise).
\<close>

record 's cell =
  c_param :: 's
  c_exp_avg :: 's
  c_exp_avg_sq :: 's
  c_grad :: 's
  c_max :: 's

definition cell :: "'s bufs \<Rightarrow> nat \<Rightarrow> 's cell" where
  "cell M i = \<lparr>c_param = param M ! i, c_exp_avg = exp_avg M ! i, c_exp_avg_sq = exp_avg_sq M ! i,
      c_grad = grad M ! i, c_max = max_exp_avg_sq M ! i\<rparr>"

definition fits :: "bool \<Rightarrow> nat \<Rightarrow> 's bufs \<Rightarrow> bool" where
  "fits ams n M \<longleftrightarrow> length (param M) = n \<and> length (exp_avg M) = n \<and> length (exp_avg_sq M) = n \<and>
      length (grad M) = n \<and> (ams \<longrightarrow> length (max_exp_avg_sq M) = n)"

text \<open>
  The update of one cell, read off the loop bodies. \<open>tail_grad\<close> and \<open>wide_grad\<close> are
  the gradient after unscaling, the sign flip and the coupled weight decay, as the scalar
  loop computes it (unary minus) and as the vectorised loop does (times \<open>-1.0\<close>).
  \<open>elem\<close> is the rest of the update, given the gradient \<open>g\<close> that enters the second
  moment and the gradient \<open>gm\<close> that enters the first moment; \<open>up\<close> and \<open>dn\<close> are the
  conversions from and to the storage type, the identity for float and double storage,
  and \<open>mx\<close> is the maximum of the loop: \<open>std::max\<close> in the scalar loop, a lane of
  \<open>maximum\<close> in the vectorised one.
  That the loops compute exactly this is proved below (\<open>tail_step_lp_cell\<close>,
  \<open>wide_step_lp_cell\<close>, \<open>tail_step_fp_cell\<close>, \<open>wide_step_fp_cell\<close>).
\<close>

definition unscaled :: "('x, 'o) fp_ops \<Rightarrow> 'o adam_args \<Rightarrow> 'o \<Rightarrow> 'o" where
  "unscaled A a g = (case grad_scale_ptr a of None \<Rightarrow> g | Some s \<Rightarrow> fdiv A g s)"

definition tail_grad :: "('x, 'o) fp_ops \<Rightarrow> ADAM_MODE \<Rightarrow> 'o adam_args \<Rightarrow> 'o \<Rightarrow> 'o \<Rightarrow> 'o" where
  "tail_grad A mode a pv gv =
    (let g = unscaled A a gv; g = (if maximize a then fneg A g else g)
     in if nonzero A (weight_decay a) \<and> mode = ORIGINAL then fadd A g (fmul A pv (weight_decay a)) else g)"

definition wide_grad :: "('x, 'o) fp_ops \<Rightarrow> ADAM_MODE \<Rightarrow> 'o adam_args \<Rightarrow> 'o \<Rightarrow> 'o \<Rightarrow> 'o" where
  "wide_grad A mode a pv gv =
    (let g = unscaled A a gv; g = (if maximize a then fmul A g (minus_one A) else g)
     in if nonzero A (weight_decay a) \<and> mode = ORIGINAL then fadd A g (fmul A pv (weight_decay a)) else g)"

definition elem :: "('o \<Rightarrow> 'o \<Rightarrow> 'o) \<Rightarrow> ('s \<Rightarrow> 'o) \<Rightarrow> ('o \<Rightarrow> 's) \<Rightarrow> ('x, 'o) fp_ops \<Rightarrow> ADAM_MODE \<Rightarrow>
    'o adam_args \<Rightarrow> 'o \<Rightarrow> 'o \<Rightarrow> 's cell \<Rightarrow> 's cell" where
  "elem mx up dn A mode a g gm c =
    (let m = fadd A (up (c_exp_avg c)) (fmul A (exp_avg_grad_coefficient a) (fsub A gm (up (c_exp_avg c))));
         v = fadd A (fmul A (up (c_exp_avg_sq c)) (beta2 a)) (fmul A (fmul A (exp_avg_sq_grad_coefficient a) g) g);
         vm = mx (up (c_max c)) v;
         den = fadd A (fdiv A (fsqrt A (if amsgrad a then vm else v)) (bias_correction2_sqrt a)) (eps a);
         pv = (if nonzero A (weight_decay a) \<and> mode = ADAMW
               then fsub A (up (c_param c)) (fmul A (fmul A (lr a) (weight_decay a)) (up (c_param c)))
               else up (c_param c))
     in \<lparr>c_param = dn (fsub A pv (fdiv A (fmul A (step_size a) m) den)),
         c_exp_avg = dn m,
         c_exp_avg_sq = dn v,
         c_grad = (case grad_scale_ptr a of None \<Rightarrow> c_grad c | Some s \<Rightarrow> dn (fdiv A (up (c_grad c)) s)),
         c_max = (if amsgrad a then dn vm else c_max c)\<rparr>)"

text \<open>
  For Half and BFloat16 storage the vectorised loop takes the gradient of the first
  moment from the cell \<open>cp\<close>: the cell itself for a lane of the first half of the vector,
  the cell \<open>h\<close> places before it for a lane of the second half.
\<close>

definition tail_elem_lp :: "('s, 'o) fp_ops \<Rightarrow> ADAM_MODE \<Rightarrow> 'o adam_args \<Rightarrow> 's cell \<Rightarrow> 's cell" where
  "tail_elem_lp A mode a c =
    (let g = tail_grad A mode a (to_opmath A (c_param c)) (to_opmath A (c_grad c))
     in elem (std_max A) (to_opmath A) (to_scalar A) A mode a g g c)"

definition wide_elem_lp :: "('s, 'o) fp_ops \<Rightarrow> ADAM_MODE \<Rightarrow> 'o adam_args \<Rightarrow> 's cell \<Rightarrow> 's cell \<Rightarrow> 's cell" where
  "wide_elem_lp A mode a c cp =
     elem (fmaximum A) (to_opmath A) (to_scalar A) A mode a
       (wide_grad A mode a (to_opmath A (c_param c)) (to_opmath A (c_grad c)))
       (wide_grad A mode a (to_opmath A (c_param cp)) (to_opmath A (c_grad cp))) c"

definition tail_elem_fp :: "('s, 'o) fp_ops \<Rightarrow> ADAM_MODE \<Rightarrow> 'o adam_args \<Rightarrow> 'o cell \<Rightarrow> 'o cell" where
  "tail_elem_fp A mode a c =
    (let g = tail_grad A mode a (c_param c) (c_grad c)
     in elem (std_max A) (\<lambda>x. x) (\<lambda>x. x) A mode a g g c)"

definition wide_elem_fp :: "('s, 'o) fp_ops \<Rightarrow> ADAM_MODE \<Rightarrow> 'o adam_args \<Rightarrow> 'o cell \<Rightarrow> 'o cell" where
  "wide_elem_fp A mode a c =
    (let g = wide_grad A mode a (c_param c) (c_grad c)
     in elem (fmaximum A) (\<lambda>x. x) (\<lambda>x. x) A mode a g g c)"

text \<open>
  \<open>prt_lp h p i\<close> is the index of that cell, for element \<open>i\<close> of a shard that starts at
  \<open>p\<close>. \<open>math_cell_lp\<close> and \<open>math_cell_fp\<close> are what \<open>adam_math\<close>, called on the
  shard of \<open>sz\<close> elements from \<open>p\<close>, leaves in cell \<open>i\<close> of the shard, given the cells
  \<open>c\<close> before the call: the vectorised update below the last full vector, the scalar
  update above. \<open>shard_of shards i\<close> is the shard that holds index \<open>i\<close>.
\<close>

definition prt_lp :: "nat \<Rightarrow> nat \<Rightarrow> nat \<Rightarrow> nat" where
  "prt_lp h p i = (if (i - p) mod (2 * h) < h then i else i - h)"

definition math_cell_lp ::
  "('s, 'o) fp_ops \<Rightarrow> ADAM_MODE \<Rightarrow> 'o adam_args \<Rightarrow> nat \<Rightarrow> nat \<Rightarrow> nat \<Rightarrow> (nat \<Rightarrow> 's cell) \<Rightarrow> nat \<Rightarrow> 's cell" where
  "math_cell_lp A mode a h p sz c i =
    (if i < p + (sz - sz mod (2 * h)) then wide_elem_lp A mode a (c i) (c (prt_lp h p i))
     else tail_elem_lp A mode a (c i))"

definition math_cell_fp ::
  "('s, 'o) fp_ops \<Rightarrow> ADAM_MODE \<Rightarrow> 'o adam_args \<Rightarrow> nat \<Rightarrow> nat \<Rightarrow> nat \<Rightarrow> (nat \<Rightarrow> 'o cell) \<Rightarrow> nat \<Rightarrow> 'o cell" where
  "math_cell_fp A mode a w p sz c i =
    (if i < p + (sz - sz mod w) then wide_elem_fp A mode a (c i) else tail_elem_fp A mode a (c i))"

definition shard_of :: "(nat \<times> nat) list \<Rightarrow> nat \<Rightarrow> (nat \<times> nat) option" where
  "shard_of shards i = find (\<lambda>(b, e). b \<le> i \<and> i < e) shards"

text \<open>A cell with its gradient replaced by \<open>ng\<close> of it (the negated gradient buffer).\<close>

definition neg_cell :: "('s \<Rightarrow> 's) \<Rightarrow> 's cell \<Rightarrow> 's cell" where
  "neg_cell ng c = c\<lparr>c_grad := ng (c_grad c)\<rparr>"

subsection \<open>Exact arithmetic and sample inputs\<close>

text \<open>
  One instance of the operations, used where a statement is evaluated on concrete
  numbers: the reals with their exact operations, and conversions that change nothing.
  The inputs \<open>lane_bufs\<close> and \<open>strided_grad\<close> below are small integers and dyadic
  fractions on which every operation the kernel performs has a result that is exactly
  representable already in bfloat16 (square roots are taken of \<open>0\<close>, \<open>1\<close> and \<open>9\<close>
  only), so that IEEE arithmetic in any of the four storage types computes the same
  values.
\<close>

definition exact_ops :: "(real, real) fp_ops" where
  "exact_ops = \<lparr>to_opmath = (\<lambda>x. x), to_scalar = (\<lambda>x. x), fadd = (+), fsub = (-), fmul = (*),
      fdiv = (/), fneg = uminus, fsqrt = sqrt, nonzero = (\<lambda>x. x \<noteq> 0), minus_one = - 1,
      fless = (<), fmaximum = max\<rparr>"

definition exact_dbl :: "(real, real) dbl_ops" where
  "exact_dbl = \<lparr>dsub = (-), ddiv = (/), dpow = (powr), d_one = 1, narrow = (\<lambda>x. x)\<rparr>"

text \<open>
  \<open>step = 1\<close>, \<open>lr = 1/2\<close>, \<open>beta1 = 1/2\<close>, \<open>beta2 = 3/4\<close>, \<open>eps = 2\<close>: then
  \<open>step_size = 1\<close>, \<open>bias_correction2 = 1/4\<close> and its square root is \<open>1/2\<close>.
\<close>

definition sample_hp :: "real \<Rightarrow> bool \<Rightarrow> bool \<Rightarrow> real hparams" where
  "sample_hp wd ams mx = \<lparr>hp_step = 1, hp_lr = 1/2, hp_beta1 = 1/2, hp_beta2 = 3/4,
      hp_weight_decay = wd, hp_eps = 2, hp_amsgrad = ams, hp_maximize = mx\<rparr>"

definition empty_bufs :: "real bufs" where
  "empty_bufs = \<lparr>param = [], exp_avg = [], exp_avg_sq = [], grad = [], max_exp_avg_sq = []\<rparr>"

text \<open>Two elements: one shard of two, or two shards of one.\<close>

definition two_bufs :: "real bufs" where
  "two_bufs = \<lparr>param = [1, 1], exp_avg = [0, 0], exp_avg_sq = [0, 0], grad = [2, 4],
      max_exp_avg_sq = [1, 0]\<rparr>"

text \<open>
  Sixteen elements, one vector of Half or BFloat16 on a 256-bit machine
  (\<open>lpVec::size() = 16\<close>, \<open>fVec::size() = 8\<close>): the gradient is \<open>0\<close> in the first
  half and \<open>2\<close> in the second. \<open>lane_args\<close> are the scalars that \<open>sample_hp\<close> yields.
\<close>

definition lane_bufs :: "real bufs" where
  "lane_bufs = \<lparr>param = [1, 1, 1, 1, 1, 1, 1, 1, 1, 1, 1, 1, 1, 1, 1, 1],
      exp_avg = [0, 0, 0, 0, 0, 0, 0, 0, 0, 0, 0, 0, 0, 0, 0, 0],
      exp_avg_sq = [0, 0, 0, 0, 0, 0, 0, 0, 0, 0, 0, 0, 0, 0, 0, 0],
      grad = [0, 0, 0, 0, 0, 0, 0, 0, 2, 2, 2, 2, 2, 2, 2, 2],
      max_exp_avg_sq = []\<rparr>"

definition lane_args :: "real adam_args" where
  "lane_args = \<lparr>lr = 1/2, step_size = 1, bias_correction2 = 1/4, exp_avg_grad_coefficient = 1/2,
     exp_avg_sq_grad_coefficient = 1/4, bias_correction2_sqrt = 1/2, eps = 2, weight_decay = 0,
     beta2 = 3/4, amsgrad = False, maximize = False, grad_scale_ptr = None\<rparr>"

text \<open>
  Two float elements. \<open>strided_grad\<close> is a view with stride \<open>2\<close> of a storage of three
  cells: its elements are \<open>4\<close> and \<open>28\<close>; the cell between them, \<open>12\<close>, is not an
  element of the tensor. The other tensors are contiguous.
\<close>

definition strided_grad :: "real tensor" where
  "strided_grad = \<lparr>t_data = [4, 12, 28], t_numel = 2, t_stride = 2\<rparr>"

definition ones2 :: "real tensor" where
  "ones2 = \<lparr>t_data = [1, 1], t_numel = 2, t_stride = 1\<rparr>"

definition zeros2 :: "real tensor" where
  "zeros2 = \<lparr>t_data = [0, 0], t_numel = 2, t_stride = 1\<rparr>"


subsection \<open>IEEE 754 rounding\<close>

text \<open>
  What the machine does to a real result: round to the nearest number with \<open>p\<close>
  significant bits, ties to the even significand (\<open>p = 24\<close> for float, \<open>p = 53\<close> for
  double). The exponent is not bounded, so the function is the machine's on the normal
  range, away from overflow and subnormal numbers. \<open>ieee_dbl\<close> and \<open>ieee_single\<close>
  are the operations of double and of float (storage and arithmetic both float) with
  every result rounded so; \<open>pow\<close> is taken as correctly rounded, which at \<open>step = 1\<close>
  means that it returns its first argument.
\<close>

definition rne :: "real \<Rightarrow> int" where
  "rne x = (let f = \<lfloor>x\<rfloor>; r = x - of_int f
            in if r < 1 / 2 then f else if 1 / 2 < r then f + 1 else if even f then f else f + 1)"

definition round_to :: "nat \<Rightarrow> real \<Rightarrow> real" where
  "round_to p x =
    (if x = 0 then 0
     else (let e = \<lfloor>log 2 \<bar>x\<bar>\<rfloor> - int p + 1
           in of_int (rne (x / 2 powr of_int e)) * 2 powr of_int e))"

definition ieee_dbl :: "(real, real) dbl_ops" where
  "ieee_dbl = \<lparr>dsub = (\<lambda>x y. round_to 53 (x - y)), ddiv = (\<lambda>x y. round_to 53 (x / y)),
      dpow = (\<lambda>x y. round_to 53 (x powr y)), d_one = 1, narrow = round_to 24\<rparr>"

definition ieee_single :: "(real, real) fp_ops" where
  "ieee_single = \<lparr>to_opmath = (\<lambda>x. x), to_scalar = (\<lambda>x. x),
      fadd = (\<lambda>x y. round_to 24 (x + y)), fsub = (\<lambda>x y. round_to 24 (x - y)),
      fmul = (\<lambda>x y. round_to 24 (x * y)), fdiv = (\<lambda>x y. round_to 24 (x / y)),
      fneg = uminus, fsqrt = (\<lambda>x. round_to 24 (sqrt x)), nonzero = (\<lambda>x. x \<noteq> 0), minus_one = - 1,
      fless = (<), fmaximum = max\<rparr>"

text \<open>
  The hyperparameters of \<open>torch.optim.Adam\<close> by default, at the first step: the doubles
  nearest to \<open>lr = 0.001\<close>, \<open>beta1 = 0.9\<close>, \<open>beta2 = 0.999\<close> and \<open>eps = 1e-8\<close>.
\<close>

definition default_hp :: "real hparams" where
  "default_hp = \<lparr>hp_step = 1, hp_lr = 1152921504606847 / 2 ^ 60, hp_beta1 = 8106479329266893 / 2 ^ 53,
      hp_beta2 = 8998192055486251 / 2 ^ 53, hp_weight_decay = 0, hp_eps = 3022314549036573 / 2 ^ 78,
      hp_amsgrad = False, hp_maximize = False\<rparr>"

text \<open>
  The square root of the second bias correction as the specification words it: computed
  in double precision (\<open>dsqrt\<close> is the square root of doubles), then handed to the
  math layer in \<open>opmath_t\<close>.
\<close>

definition bias_correction2_sqrt_in_double ::
  "('d, 'o) dbl_ops \<Rightarrow> ('d \<Rightarrow> 'd) \<Rightarrow> 'd hparams \<Rightarrow> 'o" where
  "bias_correction2_sqrt_in_double D dsqrt hp =
     narrow D (dsqrt (dsub D (d_one D) (dpow D (hp_beta2 hp) (hp_step hp))))"


subsection \<open>Arithmetic with NaN\<close>

text \<open>
  A third instance of the operations, for inputs that are not numbers: the reals with
  one more value, NaN (here \<open>None\<close>), storage and arithmetic type being the same, as
  for float and double. An operation with a NaN argument gives NaN, every comparison
  with NaN is false, \<open>maximum\<close> gives NaN when an argument is NaN, and \<open>NaN != 0\<close>
  holds. Infinities are not among the values of this instance: a division by zero
  and the square root of a negative number give NaN here, and no evaluation below
  comes to either.
\<close>

definition nan_lift :: "(real \<Rightarrow> real \<Rightarrow> real) \<Rightarrow> real option \<Rightarrow> real option \<Rightarrow> real option" where
  "nan_lift f x y = (case x of None \<Rightarrow> None | Some u \<Rightarrow> (case y of None \<Rightarrow> None | Some v \<Rightarrow> Some (f u v)))"

definition nan_less :: "real option \<Rightarrow> real option \<Rightarrow> bool" where
  "nan_less x y = (case x of None \<Rightarrow> False | Some u \<Rightarrow> (case y of None \<Rightarrow> False | Some v \<Rightarrow> u < v))"

definition nan_le :: "real option \<Rightarrow> real option \<Rightarrow> bool" where
  "nan_le x y = (case x of None \<Rightarrow> False | Some u \<Rightarrow> (case y of None \<Rightarrow> False | Some v \<Rightarrow> u \<le> v))"

definition nan_ops :: "(real option, real option) fp_ops" where
  "nan_ops = \<lparr>to_opmath = (\<lambda>x. x), to_scalar = (\<lambda>x. x),
      fadd = nan_lift (+), fsub = nan_lift (-), fmul = nan_lift (*),
      fdiv = (\<lambda>x y. if y = Some 0 then None else nan_lift (/) x y),
      fneg = map_option uminus,
      fsqrt = (\<lambda>x. case x of None \<Rightarrow> None | Some u \<Rightarrow> if u < 0 then None else Some (sqrt u)),
      nonzero = (\<lambda>x. x \<noteq> Some 0), minus_one = Some (- 1),
      fless = nan_less, fmaximum = nan_lift max\<rparr>"

definition nan_dbl :: "(real, real option) dbl_ops" where
  "nan_dbl = \<lparr>dsub = (-), ddiv = (/), dpow = (powr), d_one = 1, narrow = Some\<rparr>"

text \<open>
  Four elements, one vector of doubles on a 256-bit machine (\<open>Vec::size() = 4\<close>). The
  first gradient is NaN, the others are \<open>2\<close>; the running maximum is \<open>1\<close> everywhere.
\<close>

definition nan_bufs :: "real option bufs" where
  "nan_bufs = \<lparr>param = [Some 1, Some 1, Some 1, Some 1],
      exp_avg = [Some 0, Some 0, Some 0, Some 0],
      exp_avg_sq = [Some 0, Some 0, Some 0, Some 0],
      grad = [None, Some 2, Some 2, Some 2],
      max_exp_avg_sq = [Some 1, Some 1, Some 1, Some 1]\<rparr>"

section \<open>The loops, element by element\<close>

subsection \<open>One iteration\<close>

text \<open>
  Each loop body, written as the five buffers it leaves: the cells of the iteration are
  replaced by their update, every other cell stays.
\<close>

lemma length_store: "q + n \<le> length xs \<Longrightarrow> length (store xs q n v) = length xs"
  by (simp add: store_def)

lemma nth_store:
  "q + n \<le> length xs \<Longrightarrow> i < length xs \<Longrightarrow>
   store xs q n v ! i = (if q \<le> i \<and> i < q + n then v (i - q) else xs ! i)"
  by (auto simp: store_def nth_append)

lemmas vec_defs = convert_to_float_def convert_from_float_def loadu_def splat_def
        vadd_def vsub_def vmul_def vdiv_def vsqrt_def maximum_def

lemma wide_step_lp_nf:
  "wide_step_lp A mode a h p d M =
    \<lparr>param = store (param M) (p + d) (2 * h)
        (\<lambda>j. if j < h then c_param (wide_elem_lp A mode a (cell M (p + d + j)) (cell M (p + d + j)))
             else c_param (wide_elem_lp A mode a (cell M (p + d + j)) (cell M (p + d + j - h)))),
     exp_avg = store (exp_avg M) (p + d) (2 * h)
        (\<lambda>j. if j < h then c_exp_avg (wide_elem_lp A mode a (cell M (p + d + j)) (cell M (p + d + j)))
             else c_exp_avg (wide_elem_lp A mode a (cell M (p + d + j)) (cell M (p + d + j - h)))),
     exp_avg_sq = store (exp_avg_sq M) (p + d) (2 * h)
        (\<lambda>j. if j < h then c_exp_avg_sq (wide_elem_lp A mode a (cell M (p + d + j)) (cell M (p + d + j)))
             else c_exp_avg_sq (wide_elem_lp A mode a (cell M (p + d + j)) (cell M (p + d + j - h)))),
     grad = (case grad_scale_ptr a of None \<Rightarrow> grad M
        | Some s \<Rightarrow> store (grad M) (p + d) (2 * h)
        (\<lambda>j. if j < h then c_grad (wide_elem_lp A mode a (cell M (p + d + j)) (cell M (p + d + j)))
             else c_grad (wide_elem_lp A mode a (cell M (p + d + j)) (cell M (p + d + j - h))))),
     max_exp_avg_sq = (if amsgrad a then store (max_exp_avg_sq M) (p + d) (2 * h)
        (\<lambda>j. if j < h then c_max (wide_elem_lp A mode a (cell M (p + d + j)) (cell M (p + d + j)))
             else c_max (wide_elem_lp A mode a (cell M (p + d + j)) (cell M (p + d + j - h))))
        else max_exp_avg_sq M)\<rparr>"
  by (cases mode; cases "grad_scale_ptr a"; cases "maximize a"; cases "nonzero A (weight_decay a)"; cases "amsgrad a")
     (simp_all add: wide_step_lp_def cell_def wide_elem_lp_def elem_def wide_grad_def unscaled_def
        Let_def vec_defs  cong: if_cong)

lemma wide_step_lp_fits:
  "fits (amsgrad a) n M \<Longrightarrow> p + d + 2 * h \<le> n \<Longrightarrow> fits (amsgrad a) n (wide_step_lp A mode a h p d M)"
  by (simp add: wide_step_lp_nf fits_def length_store split: option.splits)

lemma wide_elem_lp_grad:
  "c_grad (wide_elem_lp A mode a c cp) = (case grad_scale_ptr a of None \<Rightarrow> c_grad c
      | Some s \<Rightarrow> to_scalar A (fdiv A (to_opmath A (c_grad c)) s))"
  by (simp add: wide_elem_lp_def elem_def Let_def)

lemma wide_elem_lp_max: "\<not> amsgrad a \<Longrightarrow> c_max (wide_elem_lp A mode a c cp) = c_max c"
  by (simp add: wide_elem_lp_def elem_def Let_def)

lemma cell_sel [simp]:
  "c_param (cell M i) = param M ! i" "c_exp_avg (cell M i) = exp_avg M ! i"
  "c_exp_avg_sq (cell M i) = exp_avg_sq M ! i" "c_grad (cell M i) = grad M ! i"
  "c_max (cell M i) = max_exp_avg_sq M ! i"
  by (simp_all add: cell_def)

lemma cell_eqI:
  "param M ! i = c_param c \<Longrightarrow> exp_avg M ! i = c_exp_avg c \<Longrightarrow> exp_avg_sq M ! i = c_exp_avg_sq c \<Longrightarrow>
   grad M ! i = c_grad c \<Longrightarrow> max_exp_avg_sq M ! i = c_max c \<Longrightarrow> cell M i = c"
  by (cases c) (simp add: cell_def)

lemma wide_step_lp_cell:
  assumes "fits (amsgrad a) n M" "p + d + 2 * h \<le> n" "i < n"
  shows "cell (wide_step_lp A mode a h p d M) i =
    (if p + d \<le> i \<and> i < p + d + 2 * h
     then wide_elem_lp A mode a (cell M i) (cell M (if i < p + d + h then i else i - h))
     else cell M i)"
proof (cases "p + d \<le> i \<and> i < p + d + 2 * h")
  case False
  show ?thesis
    apply (simp only: False if_False)
    apply (rule cell_eqI)
    using assms False
    by (auto simp add: wide_step_lp_nf fits_def nth_store split: option.splits)
next
  case True
  then have a1: "i - (p + d) < h \<longleftrightarrow> i < p + d + h" and a2: "p + d + (i - (p + d)) = i"
    and a3: "p + d + (i - (p + d)) - h = i - h"
    by auto
  show ?thesis
    apply (simp only: True if_True)
    apply (rule cell_eqI)
    using assms True
    by (simp_all add: wide_step_lp_nf fits_def nth_store a1 a2 a3 wide_elem_lp_grad wide_elem_lp_max
           split: option.splits)
qed

lemma tail_step_lp_nf:
  "tail_step_lp A mode a p d M =
    \<lparr>param = (param M)[p + d := c_param (tail_elem_lp A mode a (cell M (p + d)))],
     exp_avg = (exp_avg M)[p + d := c_exp_avg (tail_elem_lp A mode a (cell M (p + d)))],
     exp_avg_sq = (exp_avg_sq M)[p + d := c_exp_avg_sq (tail_elem_lp A mode a (cell M (p + d)))],
     grad = (case grad_scale_ptr a of None \<Rightarrow> grad M
        | Some s \<Rightarrow> (grad M)[p + d := c_grad (tail_elem_lp A mode a (cell M (p + d)))]),
     max_exp_avg_sq = (if amsgrad a
        then (max_exp_avg_sq M)[p + d := c_max (tail_elem_lp A mode a (cell M (p + d)))]
        else max_exp_avg_sq M)\<rparr>"
  by (cases mode; cases "grad_scale_ptr a"; cases "maximize a"; cases "nonzero A (weight_decay a)"; cases "amsgrad a")
     (simp_all add: tail_step_lp_def cell_def tail_elem_lp_def elem_def tail_grad_def unscaled_def Let_def)

lemma wide_step_fp_nf:
  "wide_step_fp A mode a w p d M =
    \<lparr>param = store (param M) (p + d) w (\<lambda>j. c_param (wide_elem_fp A mode a (cell M (p + d + j)))),
     exp_avg = store (exp_avg M) (p + d) w (\<lambda>j. c_exp_avg (wide_elem_fp A mode a (cell M (p + d + j)))),
     exp_avg_sq = store (exp_avg_sq M) (p + d) w (\<lambda>j. c_exp_avg_sq (wide_elem_fp A mode a (cell M (p + d + j)))),
     grad = (case grad_scale_ptr a of None \<Rightarrow> grad M
        | Some s \<Rightarrow> store (grad M) (p + d) w (\<lambda>j. c_grad (wide_elem_fp A mode a (cell M (p + d + j))))),
     max_exp_avg_sq = (if amsgrad a
        then store (max_exp_avg_sq M) (p + d) w (\<lambda>j. c_max (wide_elem_fp A mode a (cell M (p + d + j))))
        else max_exp_avg_sq M)\<rparr>"
  by (cases mode; cases "grad_scale_ptr a"; cases "maximize a"; cases "nonzero A (weight_decay a)"; cases "amsgrad a")
     (simp_all add: wide_step_fp_def cell_def wide_elem_fp_def elem_def wide_grad_def unscaled_def Let_def vec_defs)

lemma tail_step_fp_nf:
  "p + d < length (param M) \<Longrightarrow> p + d < length (exp_avg M) \<Longrightarrow> p + d < length (exp_avg_sq M) \<Longrightarrow>
   (amsgrad a \<longrightarrow> p + d < length (max_exp_avg_sq M)) \<Longrightarrow>
   tail_step_fp A mode a p d M =
    \<lparr>param = (param M)[p + d := c_param (tail_elem_fp A mode a (cell M (p + d)))],
     exp_avg = (exp_avg M)[p + d := c_exp_avg (tail_elem_fp A mode a (cell M (p + d)))],
     exp_avg_sq = (exp_avg_sq M)[p + d := c_exp_avg_sq (tail_elem_fp A mode a (cell M (p + d)))],
     grad = (case grad_scale_ptr a of None \<Rightarrow> grad M
        | Some s \<Rightarrow> (grad M)[p + d := c_grad (tail_elem_fp A mode a (cell M (p + d)))]),
     max_exp_avg_sq = (if amsgrad a
        then (max_exp_avg_sq M)[p + d := c_max (tail_elem_fp A mode a (cell M (p + d)))]
        else max_exp_avg_sq M)\<rparr>"
  by (cases mode; cases "grad_scale_ptr a"; cases "maximize a"; cases "nonzero A (weight_decay a)"; cases "amsgrad a")
     (simp_all add: tail_step_fp_def cell_def tail_elem_fp_def elem_def tail_grad_def unscaled_def Let_def)

lemma tail_step_lp_fits:
  "fits (amsgrad a) n M \<Longrightarrow> fits (amsgrad a) n (tail_step_lp A mode a p d M)"
  by (simp add: tail_step_lp_nf fits_def split: option.splits)

lemma tail_step_lp_cell:
  assumes "fits (amsgrad a) n M" "p + d < n" "i < n"
  shows "cell (tail_step_lp A mode a p d M) i = (if i = p + d then tail_elem_lp A mode a (cell M i) else cell M i)"
proof (cases "i = p + d")
  case False
  show ?thesis
    apply (simp only: False if_False)
    apply (rule cell_eqI)
    using assms False
    by (auto simp add: tail_step_lp_nf fits_def split: option.splits)
next
  case True
  have g: "c_grad (tail_elem_lp A mode a c) = c_grad c" if "grad_scale_ptr a = None" for c
    using that by (simp add: tail_elem_lp_def elem_def Let_def)
  have m: "c_max (tail_elem_lp A mode a c) = c_max c" if "\<not> amsgrad a" for c
    using that by (simp add: tail_elem_lp_def elem_def Let_def)
  show ?thesis
    apply (simp only: True if_True)
    apply (rule cell_eqI)
    using assms True
    by (auto simp add: tail_step_lp_nf fits_def g m split: option.splits)
qed

lemma wide_step_fp_fits:
  "fits (amsgrad a) n M \<Longrightarrow> p + d + w \<le> n \<Longrightarrow> fits (amsgrad a) n (wide_step_fp A mode a w p d M)"
  by (simp add: wide_step_fp_nf fits_def length_store split: option.splits)

lemma wide_step_fp_cell:
  assumes "fits (amsgrad a) n M" "p + d + w \<le> n" "i < n"
  shows "cell (wide_step_fp A mode a w p d M) i =
    (if p + d \<le> i \<and> i < p + d + w then wide_elem_fp A mode a (cell M i) else cell M i)"
proof (cases "p + d \<le> i \<and> i < p + d + w")
  case False
  show ?thesis
    apply (simp only: False if_False)
    apply (rule cell_eqI)
    using assms False
    by (auto simp add: wide_step_fp_nf fits_def nth_store split: option.splits)
next
  case True
  have g: "c_grad (wide_elem_fp A mode a c) = c_grad c" if "grad_scale_ptr a = None" for c
    using that by (simp add: wide_elem_fp_def elem_def Let_def)
  have m: "c_max (wide_elem_fp A mode a c) = c_max c" if "\<not> amsgrad a" for c
    using that by (simp add: wide_elem_fp_def elem_def Let_def)
  show ?thesis
    apply (simp only: True if_True)
    apply (rule cell_eqI)
    using assms True
    by (auto simp add: wide_step_fp_nf fits_def nth_store g m split: option.splits)
qed

lemma tail_step_fp_fits:
  "fits (amsgrad a) n M \<Longrightarrow> p + d < n \<Longrightarrow> fits (amsgrad a) n (tail_step_fp A mode a p d M)"
  by (simp add: tail_step_fp_nf fits_def split: option.splits)

lemma tail_step_fp_cell:
  assumes "fits (amsgrad a) n M" "p + d < n" "i < n"
  shows "cell (tail_step_fp A mode a p d M) i = (if i = p + d then tail_elem_fp A mode a (cell M i) else cell M i)"
proof (cases "i = p + d")
  case False
  show ?thesis
    apply (simp only: False if_False)
    apply (rule cell_eqI)
    using assms False
    by (auto simp add: tail_step_fp_nf fits_def split: option.splits)
next
  case True
  have g: "c_grad (tail_elem_fp A mode a c) = c_grad c" if "grad_scale_ptr a = None" for c
    using that by (simp add: tail_elem_fp_def elem_def Let_def)
  have m: "c_max (tail_elem_fp A mode a c) = c_max c" if "\<not> amsgrad a" for c
    using that by (simp add: tail_elem_fp_def elem_def Let_def)
  show ?thesis
    apply (simp only: True if_True)
    apply (rule cell_eqI)
    using assms True
    by (auto simp add: tail_step_fp_nf fits_def g m split: option.splits)
qed

subsection \<open>The loops\<close>

text \<open>
  A loop whose iteration \<open>d\<close> updates the cells of iteration \<open>d\<close> from those cells
  alone updates every cell of its range from the cells before the loop.
\<close>

lemma scalar_loop_cells:
  assumes step: "\<And>d M. P M \<Longrightarrow> d < sz \<Longrightarrow>
      P (body d M) \<and> (\<forall>i<n. cell (body d M) i = (if i = p + d then f (cell M i) else cell M i))"
  shows "P M \<Longrightarrow> P (scalar_loop sz body d M) \<and>
     (\<forall>i<n. cell (scalar_loop sz body d M) i =
        (if p + d \<le> i \<and> i < p + sz then f (cell M i) else cell M i))"
proof (induction "sz - d" arbitrary: d M rule: less_induct)
  case less
  note prems = less.prems
  show ?case
  proof (cases "d < sz")
    case False
    with prems show ?thesis by (auto simp add: scalar_loop.simps[of sz body d M])
  next
    case True
    have s: "P (body d M)" "\<forall>i<n. cell (body d M) i = (if i = p + d then f (cell M i) else cell M i)"
      using step[OF prems True] by auto
    have ih: "P (scalar_loop sz body (d + 1) (body d M))"
      "\<forall>i<n. cell (scalar_loop sz body (d + 1) (body d M)) i =
         (if p + (d + 1) \<le> i \<and> i < p + sz then f (cell (body d M) i) else cell (body d M) i)"
      using less.hyps[of "d + 1" "body d M"] True s(1) by auto
    show ?thesis
      using True ih s(2) by (auto simp: scalar_loop.simps[of sz body d M])
  qed
qed

lemma vec_loop_cells:
  assumes step: "\<And>d M. P M \<Longrightarrow> W dvd d \<Longrightarrow> d + W \<le> sz \<Longrightarrow>
      P (body d M) \<and> (\<forall>i<n. cell (body d M) i =
         (if p + d \<le> i \<and> i < p + d + W then g (cell M i) (cell M (prt i)) else cell M i))"
    and prt: "\<And>d i. W dvd d \<Longrightarrow> p + d \<le> i \<Longrightarrow> i < p + d + W \<Longrightarrow> p + d \<le> prt i \<and> prt i < p + d + W"
    and n: "p + sz \<le> n"
    and B: "B = sz - sz mod W"
  shows "P M \<Longrightarrow> W dvd d \<Longrightarrow> d \<le> B \<Longrightarrow>
     fst (vec_loop W sz body d M) = B \<and> P (snd (vec_loop W sz body d M)) \<and>
     (\<forall>i<n. cell (snd (vec_loop W sz body d M)) i =
        (if p + d \<le> i \<and> i < p + B then g (cell M i) (cell M (prt i)) else cell M i))"
proof (induction "sz - d" arbitrary: d M rule: less_induct)
  case less
  note prems = less.prems
  have WB: "W dvd B" by (simp add: B dvd_minus_mod)
  have Bsz: "B \<le> sz" by (simp add: B)
  show ?case
  proof (cases "d < B")
    case False
    have stop: "vec_loop W sz body d M = (d, M)"
      using False by (simp add: vec_loop.simps[of W sz body d M] B)
    from False prems have "d = B" by simp
    with prems show ?thesis unfolding stop by auto
  next
    case True
    obtain k where k: "d = W * k" using prems(2) by (auto simp: dvd_def)
    obtain l where l: "B = W * l" using WB by (auto simp: dvd_def)
    have "k < l" using True k l by (metis mult_less_cancel1)
    then have "W * (k + 1) \<le> W * l" by (metis Suc_eq_plus1 Suc_leI mult_le_mono2)
    then have dW: "d + W \<le> B" using k l by simp
    then have dWsz: "d + W \<le> sz" using Bsz by linarith
    have W0: "0 < W" using True by (cases "W = 0") (auto simp: B)
    have s: "P (body d M)" "\<forall>i<n. cell (body d M) i =
         (if p + d \<le> i \<and> i < p + d + W then g (cell M i) (cell M (prt i)) else cell M i)"
      using step[OF prems(1,2) dWsz] by auto
    have "sz - (d + W) < sz - d" using dWsz W0 by linarith
    then have ih: "fst (vec_loop W sz body (d + W) (body d M)) = B"
      "P (snd (vec_loop W sz body (d + W) (body d M)))"
      "\<forall>i<n. cell (snd (vec_loop W sz body (d + W) (body d M))) i =
        (if p + (d + W) \<le> i \<and> i < p + B then g (cell (body d M) i) (cell (body d M) (prt i))
         else cell (body d M) i)"
      using less.hyps[of "d + W" "body d M"] s(1) dW prems(2) by auto
    have later: "cell (body d M) i = cell M i \<and> cell (body d M) (prt i) = cell M (prt i)"
      if i: "p + (d + W) \<le> i" "i < p + B" for i
    proof -
      define d' where "d' = W * ((i - p) div W)"
      have "W dvd d'" by (simp add: d'_def)
      have "d' \<le> i - p" "i - p < d' + W"
        using W0 by (simp_all add: d'_def dividend_less_times_div add.commute)
      then have c: "p + d' \<le> i" "i < p + d' + W" using i by linarith+
      have "k + 1 \<le> (i - p) div W"
      proof -
        have "W * (k + 1) \<le> i - p" using i k by (simp add: algebra_simps)
        then show ?thesis using W0 by (metis div_le_mono div_mult_self1_is_m)
      qed
      then have "W * (k + 1) \<le> d'" unfolding d'_def by (rule mult_le_mono2)
      then have ge: "d + W \<le> d'" using k by simp
      have pr: "p + d' \<le> prt i" "prt i < p + d' + W" using prt[OF \<open>W dvd d'\<close> c] by auto
      have "i - p < W * l" using i l by linarith
      then have "(i - p) div W < l"
        using W0 by (simp add: less_mult_imp_div_less mult.commute)
      then have "W * ((i - p) div W + 1) \<le> W * l" by (metis Suc_eq_plus1 Suc_leI mult_le_mono2)
      then have "d' + W \<le> B" using l by (simp add: d'_def)
      then have "prt i < n" using pr n Bsz by linarith
      moreover have "i < n" using i n Bsz by linarith
      ultimately show ?thesis using s(2) ge pr c by auto
    qed
    have unf: "vec_loop W sz body d M = vec_loop W sz body (d + W) (body d M)"
      using True by (simp add: vec_loop.simps[of W sz body d M] B)
    have cells: "cell (snd (vec_loop W sz body (d + W) (body d M))) i =
        (if p + d \<le> i \<and> i < p + B then g (cell M i) (cell M (prt i)) else cell M i)"
      if "i < n" for i
    proof -
      consider "i < p + d" | "p + d \<le> i" "i < p + d + W" | "p + (d + W) \<le> i" "i < p + B" | "p + B \<le> i"
        by linarith
      then show ?thesis
      proof cases
        case 1
        then show ?thesis using ih(3) s(2) that by simp
      next
        case 2
        then show ?thesis using ih(3) s(2) that dW by simp
      next
        case 3
        then show ?thesis using ih(3) later[OF 3] that by simp
      next
        case 4
        then show ?thesis using ih(3) s(2) that dW by simp
      qed
    qed
    show ?thesis
      unfolding unf using ih(1,2) cells by blast
  qed
qed

subsection \<open>\<open>adam_math\<close>\<close>

lemma prt_lp_chunk:
  assumes "2 * h dvd d" "p + d \<le> i" "i < p + d + 2 * h"
  shows "prt_lp h p i = (if i < p + d + h then i else i - h)"
    and "p + d \<le> prt_lp h p i \<and> prt_lp h p i < p + d + 2 * h"
proof -
  obtain k where k: "d = 2 * h * k" using assms(1) by (auto simp: dvd_def)
  have "i - p = (i - p - d) + (2 * h) * k" using assms k by simp
  then have "(i - p) mod (2 * h) = (i - p - d) mod (2 * h)"
    by (metis mod_mult_self2)
  also have "\<dots> = i - p - d" using assms by simp
  finally have m: "(i - p) mod (2 * h) = i - p - d" .
  show "prt_lp h p i = (if i < p + d + h then i else i - h)"
    using assms m by (auto simp: prt_lp_def)
  then show "p + d \<le> prt_lp h p i \<and> prt_lp h p i < p + d + 2 * h"
    using assms by auto
qed

lemma adam_math_lp_cells:
  fixes M :: "'s bufs" and A :: "('s, 'o) fp_ops"
  assumes f: "fits (amsgrad a) n M" and n: "p + sz \<le> n"
  shows "fits (amsgrad a) n (adam_math_lp A mode a h p sz M) \<and>
    (\<forall>i<n. cell (adam_math_lp A mode a h p sz M) i =
       (if p \<le> i \<and> i < p + sz then math_cell_lp A mode a h p sz (cell M) i else cell M i))"
proof -
  define B where "B = sz - sz mod (2 * h)"
  define R where "R = vec_loop (2 * h) sz (wide_step_lp A mode a h p) 0 M"
  have Bsz: "B \<le> sz" by (simp add: B_def)
  have v: "fst R = B \<and> fits (amsgrad a) n (snd R) \<and>
     (\<forall>i<n. cell (snd R) i =
        (if p + 0 \<le> i \<and> i < p + B then wide_elem_lp A mode a (cell M i) (cell M (prt_lp h p i)) else cell M i))"
    unfolding R_def
  proof (rule vec_loop_cells[where P = "fits (amsgrad a) n" and n = n])
    fix d and M :: "'s bufs"
    assume a: "fits (amsgrad a) n M" "2 * h dvd d" "d + 2 * h \<le> sz"
    then have le: "p + d + 2 * h \<le> n" using n by linarith
    show "fits (amsgrad a) n (wide_step_lp A mode a h p d M) \<and>
          (\<forall>i<n. cell (wide_step_lp A mode a h p d M) i =
                 (if p + d \<le> i \<and> i < p + d + 2 * h
                  then wide_elem_lp A mode a (cell M i) (cell M (prt_lp h p i)) else cell M i))"
      using wide_step_lp_fits[OF a(1) le] wide_step_lp_cell[OF a(1) le] prt_lp_chunk(1)[OF a(2)]
      by auto
  next
    fix d i
    assume "2 * h dvd d" "p + d \<le> i" "i < p + d + 2 * h"
    then show "p + d \<le> prt_lp h p i \<and> prt_lp h p i < p + d + 2 * h"
      by (rule prt_lp_chunk(2))
  qed (use f n in \<open>simp_all add: B_def\<close>)
  have t: "fits (amsgrad a) n (scalar_loop sz (tail_step_lp A mode a p) B (snd R)) \<and>
     (\<forall>i<n. cell (scalar_loop sz (tail_step_lp A mode a p) B (snd R)) i =
        (if p + B \<le> i \<and> i < p + sz then tail_elem_lp A mode a (cell (snd R) i) else cell (snd R) i))"
  proof (rule scalar_loop_cells[where P = "fits (amsgrad a) n"])
    fix d and M :: "'s bufs"
    assume a: "fits (amsgrad a) n M" "d < sz"
    then have "p + d < n" using n by linarith
    then show "fits (amsgrad a) n (tail_step_lp A mode a p d M) \<and>
        (\<forall>i<n. cell (tail_step_lp A mode a p d M) i =
           (if i = p + d then tail_elem_lp A mode a (cell M i) else cell M i))"
      using tail_step_lp_fits[OF a(1)] tail_step_lp_cell[OF a(1)] by auto
  qed (use v in simp)
  have eq: "adam_math_lp A mode a h p sz M = scalar_loop sz (tail_step_lp A mode a p) B (snd R)"
    using v by (simp add: adam_math_lp_def R_def[symmetric] split_beta)
  show ?thesis
    unfolding eq using t v Bsz
    by (auto simp: math_cell_lp_def B_def[symmetric])
qed

lemma adam_math_fp_cells:
  fixes M :: "'o bufs" and A :: "('s, 'o) fp_ops"
  assumes f: "fits (amsgrad a) n M" and n: "p + sz \<le> n"
  shows "fits (amsgrad a) n (adam_math_fp A mode a w p sz M) \<and>
    (\<forall>i<n. cell (adam_math_fp A mode a w p sz M) i =
       (if p \<le> i \<and> i < p + sz then math_cell_fp A mode a w p sz (cell M) i else cell M i))"
proof -
  define B where "B = sz - sz mod w"
  define R where "R = vec_loop w sz (wide_step_fp A mode a w p) 0 M"
  have Bsz: "B \<le> sz" by (simp add: B_def)
  have v: "fst R = B \<and> fits (amsgrad a) n (snd R) \<and>
     (\<forall>i<n. cell (snd R) i =
        (if p + 0 \<le> i \<and> i < p + B then (\<lambda>c c'. wide_elem_fp A mode a c) (cell M i) (cell M ((\<lambda>i. i) i)) else cell M i))"
    unfolding R_def
  proof (rule vec_loop_cells[where P = "fits (amsgrad a) n" and n = n])
    fix d and M :: "'o bufs"
    assume a: "fits (amsgrad a) n M" "w dvd d" "d + w \<le> sz"
    then have le: "p + d + w \<le> n" using n by linarith
    show "fits (amsgrad a) n (wide_step_fp A mode a w p d M) \<and>
          (\<forall>i<n. cell (wide_step_fp A mode a w p d M) i =
                 (if p + d \<le> i \<and> i < p + d + w
                  then wide_elem_fp A mode a (cell M i) else cell M i))"
      using wide_step_fp_fits[OF a(1) le, where A = A and mode = mode]
        wide_step_fp_cell[OF a(1) le, where A = A and mode = mode]
      by auto
  qed (use f n in \<open>simp_all add: B_def\<close>)
  have t: "fits (amsgrad a) n (scalar_loop sz (tail_step_fp A mode a p) B (snd R)) \<and>
     (\<forall>i<n. cell (scalar_loop sz (tail_step_fp A mode a p) B (snd R)) i =
        (if p + B \<le> i \<and> i < p + sz then tail_elem_fp A mode a (cell (snd R) i) else cell (snd R) i))"
  proof (rule scalar_loop_cells[where P = "fits (amsgrad a) n"])
    fix d and M :: "'o bufs"
    assume a: "fits (amsgrad a) n M" "d < sz"
    then have "p + d < n" using n by linarith
    then show "fits (amsgrad a) n (tail_step_fp A mode a p d M) \<and>
        (\<forall>i<n. cell (tail_step_fp A mode a p d M) i =
           (if i = p + d then tail_elem_fp A mode a (cell M i) else cell M i))"
      using tail_step_fp_fits[OF a(1), where A = A and mode = mode]
        tail_step_fp_cell[OF a(1), where A = A and mode = mode] by auto
  qed (use v in simp)
  have eq: "adam_math_fp A mode a w p sz M = scalar_loop sz (tail_step_fp A mode a p) B (snd R)"
    using v by (simp add: adam_math_fp_def R_def[symmetric] split_beta)
  show ?thesis
    unfolding eq using t v Bsz
    by (auto simp: math_cell_fp_def B_def[symmetric])
qed

subsection \<open>The shards\<close>

lemma is_partition_le: "is_partition b N shards \<Longrightarrow> b \<le> N"
  by (induction b N shards rule: is_partition.induct) auto

lemma is_partition_mem:
  "is_partition b N shards \<Longrightarrow> (x, y) \<in> set shards \<Longrightarrow> b \<le> x \<and> x \<le> y \<and> y \<le> N"
proof (induction shards arbitrary: b)
  case (Cons s shards)
  obtain x' y' where s: "s = (x', y')" by (cases s)
  from Cons.prems s have p: "x' = b" "x' \<le> y'" "is_partition y' N shards" by auto
  show ?case
  proof (cases "(x, y) = (x', y')")
    case True
    then show ?thesis using p is_partition_le[OF p(3)] by auto
  next
    case False
    then have "(x, y) \<in> set shards" using Cons.prems(2) s by auto
    from Cons.IH[OF p(3) this] p show ?thesis by auto
  qed
qed simp

lemma shard_of_None: "is_partition b N shards \<Longrightarrow> i < b \<or> N \<le> i \<Longrightarrow> shard_of shards i = None"
  by (auto simp: shard_of_def find_None_iff dest: is_partition_mem)

lemma shard_of_Some: "is_partition b N shards \<Longrightarrow> b \<le> i \<Longrightarrow> i < N \<Longrightarrow> \<exists>x y. shard_of shards i = Some (x, y)"
proof (induction shards arbitrary: b)
  case (Cons s shards)
  obtain x' y' where s: "s = (x', y')" by (cases s)
  from Cons.prems s have p: "x' = b" "x' \<le> y'" "is_partition y' N shards" by auto
  show ?case
  proof (cases "i < y'")
    case True
    then show ?thesis using p Cons.prems s by (simp add: shard_of_def)
  next
    case False
    then have "\<exists>x y. shard_of shards i = Some (x, y)" using Cons.IH[OF p(3)] Cons.prems by simp
    then show ?thesis using False s by (simp add: shard_of_def)
  qed
qed simp

lemma shard_of_SomeD:
  "is_partition b N shards \<Longrightarrow> shard_of shards i = Some (x, y) \<Longrightarrow>
   (x, y) \<in> set shards \<and> b \<le> x \<and> x \<le> i \<and> i < y \<and> y \<le> N"
proof -
  assume p: "is_partition b N shards" and f: "shard_of shards i = Some (x, y)"
  from f obtain k where k: "k < length shards" "shards ! k = (x, y)" "x \<le> i \<and> i < y"
    unfolding shard_of_def find_Some_iff by auto
  then have "(x, y) \<in> set shards" by (metis nth_mem)
  with is_partition_mem[OF p this] k show ?thesis by auto
qed

lemma parallel_for_cells:
  assumes shard: "\<And>b e M. P M \<Longrightarrow> b \<le> e \<Longrightarrow> e \<le> N \<Longrightarrow>
      P (f b e M) \<and> (\<forall>i<n. cell (f b e M) i = (if b \<le> i \<and> i < e then G b e (cell M) i else cell M i))"
    and loc: "\<And>b e c c' i. (\<forall>k. b \<le> k \<and> k < e \<longrightarrow> c k = c' k) \<Longrightarrow> b \<le> i \<Longrightarrow> i < e \<Longrightarrow>
      G b e c i = G b e c' i"
    and n: "N \<le> n"
  shows "P M \<Longrightarrow> is_partition bs N shards \<Longrightarrow>
     P (parallel_for shards f M) \<and>
     (\<forall>i<n. cell (parallel_for shards f M) i =
        (case shard_of shards i of None \<Rightarrow> cell M i | Some (b, e) \<Rightarrow> G b e (cell M) i))"
proof (induction shards arbitrary: bs M)
  case Nil
  then show ?case by (simp add: shard_of_def)
next
  case (Cons s shards)
  obtain b e where s: "s = (b, e)" by (cases s)
  from Cons.prems s have p: "b = bs" "b \<le> e" "is_partition e N shards" by auto
  have eN: "e \<le> N" using is_partition_le[OF p(3)] .
  have st: "P (f b e M)" "\<forall>i<n. cell (f b e M) i = (if b \<le> i \<and> i < e then G b e (cell M) i else cell M i)"
    using shard[OF Cons.prems(1) p(2) eN] by auto
  have ih: "P (parallel_for shards f (f b e M))"
    "\<forall>i<n. cell (parallel_for shards f (f b e M)) i =
        (case shard_of shards i of None \<Rightarrow> cell (f b e M) i | Some (x, y) \<Rightarrow> G x y (cell (f b e M)) i)"
    using Cons.IH[OF st(1) p(3)] by auto
  have cells: "cell (parallel_for shards f (f b e M)) i =
        (case shard_of ((b, e) # shards) i of None \<Rightarrow> cell M i | Some (x, y) \<Rightarrow> G x y (cell M) i)"
    if i: "i < n" for i
  proof (cases "b \<le> i \<and> i < e")
    case True
    then have "shard_of shards i = None" using shard_of_None[OF p(3)] by simp
    moreover have "shard_of ((b, e) # shards) i = Some (b, e)" using True by (simp add: shard_of_def)
    ultimately show ?thesis using ih(2) st(2) i True by simp
  next
    case False
    then have so: "shard_of ((b, e) # shards) i = shard_of shards i" by (auto simp: shard_of_def)
    show ?thesis
    proof (cases "shard_of shards i")
      case None
      then show ?thesis using ih(2) st(2) i False so by auto
    next
      case (Some xy)
      obtain x y where xy: "xy = (x, y)" by (cases xy)
      have d: "e \<le> x" "x \<le> i" "i < y" "y \<le> N"
        using shard_of_SomeD[OF p(3)] Some xy by auto
      have "\<forall>k. x \<le> k \<and> k < y \<longrightarrow> cell (f b e M) k = cell M k"
        using st(2) d n by auto
      then have "G x y (cell (f b e M)) i = G x y (cell M) i"
        using loc d by blast
      then show ?thesis using ih(2) i so Some xy by simp
    qed
  qed
  show ?case
    using ih(1) cells s by simp
qed

lemma math_cell_lp_local:
  assumes "\<forall>k. b \<le> k \<and> k < e \<longrightarrow> c k = c' k" "b \<le> i" "i < e"
  shows "math_cell_lp A mode a h b (e - b) c i = math_cell_lp A mode a h b (e - b) c' i"
proof (cases "i < b + (e - b - (e - b) mod (2 * h))")
  case False
  then show ?thesis using assms by (simp add: math_cell_lp_def)
next
  case True
  define B where "B = e - b - (e - b) mod (2 * h)"
  have "2 * h dvd B" unfolding B_def by (rule dvd_minus_mod)
  then obtain l where l: "B = 2 * h * l" by (auto simp: dvd_def)
  have h0: "0 < 2 * h" using True assms by (cases "h = 0") auto
  define d where "d = 2 * h * ((i - b) div (2 * h))"
  have dv: "2 * h dvd d" by (simp add: d_def)
  have "d \<le> i - b" "i - b < d + 2 * h"
    using h0 by (simp_all add: d_def dividend_less_times_div add.commute)
  then have c: "b + d \<le> i" "i < b + d + 2 * h" using assms by linarith+
  have "i < b + B" using True unfolding B_def .
  then have "i - b < 2 * h * l" using l assms by linarith
  then have "(i - b) div (2 * h) < l"
    using h0 by (simp add: less_mult_imp_div_less mult.commute)
  then have "2 * h * ((i - b) div (2 * h) + 1) \<le> 2 * h * l" by (metis Suc_eq_plus1 Suc_leI mult_le_mono2)
  then have "d + 2 * h \<le> B" using l by (simp add: d_def)
  moreover have "B \<le> e - b" by (simp add: B_def)
  ultimately have "b + d + 2 * h \<le> e" using assms by linarith
  then have "b \<le> prt_lp h b i \<and> prt_lp h b i < e"
    using prt_lp_chunk(2)[OF dv c] by linarith
  then show ?thesis using assms True by (simp add: math_cell_lp_def)
qed

lemma math_cell_fp_local:
  assumes "\<forall>k. b \<le> k \<and> k < e \<longrightarrow> c k = c' k" "b \<le> i" "i < e"
  shows "math_cell_fp A mode a w b (e - b) c i = math_cell_fp A mode a w b (e - b) c' i"
  using assms by (simp add: math_cell_fp_def)

lemma fits_step_scalars [simp]: "amsgrad (step_scalars D A hp gs) = hp_amsgrad hp"
  by (simp add: step_scalars_def Let_def)

lemma impl_lp_cells:
  fixes M :: "'s bufs" and A :: "('s, 'o) fp_ops"
  assumes f: "fits (hp_amsgrad hp) N M" and part: "is_partition 0 N shards"
  shows "fits (hp_amsgrad hp) N (adam_fused_step_impl_lp D A mode h shards hp gs M) \<and>
    (\<forall>i<N. cell (adam_fused_step_impl_lp D A mode h shards hp gs M) i =
       (case shard_of shards i of None \<Rightarrow> cell M i
        | Some (b, e) \<Rightarrow> math_cell_lp A mode (step_scalars D A hp gs) h b (e - b) (cell M) i))"
  unfolding adam_fused_step_impl_lp_def
proof (rule parallel_for_cells[where P = "fits (hp_amsgrad hp) N" and N = N and bs = 0, OF _ _ _ f part])
  fix b e and M :: "'s bufs"
  assume a: "fits (hp_amsgrad hp) N M" "b \<le> e" "e \<le> N"
  then have "b + (e - b) \<le> N" by simp
  from adam_math_lp_cells[where a = "step_scalars D A hp gs", simplified, OF a(1) this, of A mode h] a
  show "fits (hp_amsgrad hp) N (adam_math_lp A mode (step_scalars D A hp gs) h b (e - b) M) \<and>
       (\<forall>i<N. cell (adam_math_lp A mode (step_scalars D A hp gs) h b (e - b) M) i =
              (if b \<le> i \<and> i < e then math_cell_lp A mode (step_scalars D A hp gs) h b (e - b) (cell M) i
               else cell M i))"
    by simp
qed (use math_cell_lp_local in \<open>blast+\<close>)

lemma impl_fp_cells:
  fixes M :: "'o bufs" and A :: "('s, 'o) fp_ops"
  assumes f: "fits (hp_amsgrad hp) N M" and part: "is_partition 0 N shards"
  shows "fits (hp_amsgrad hp) N (adam_fused_step_impl_fp D A mode w shards hp gs M) \<and>
    (\<forall>i<N. cell (adam_fused_step_impl_fp D A mode w shards hp gs M) i =
       (case shard_of shards i of None \<Rightarrow> cell M i
        | Some (b, e) \<Rightarrow> math_cell_fp A mode (step_scalars D A hp gs) w b (e - b) (cell M) i))"
  unfolding adam_fused_step_impl_fp_def
proof (rule parallel_for_cells[where P = "fits (hp_amsgrad hp) N" and N = N and bs = 0, OF _ _ _ f part])
  fix b e and M :: "'o bufs"
  assume a: "fits (hp_amsgrad hp) N M" "b \<le> e" "e \<le> N"
  then have "b + (e - b) \<le> N" by simp
  from adam_math_fp_cells[where a = "step_scalars D A hp gs", simplified, OF a(1) this, of A mode w] a
  show "fits (hp_amsgrad hp) N (adam_math_fp A mode (step_scalars D A hp gs) w b (e - b) M) \<and>
       (\<forall>i<N. cell (adam_math_fp A mode (step_scalars D A hp gs) w b (e - b) M) i =
              (if b \<le> i \<and> i < e then math_cell_fp A mode (step_scalars D A hp gs) w b (e - b) (cell M) i
               else cell M i))"
    by simp
qed (use math_cell_fp_local in \<open>blast+\<close>)
subsection \<open>Invariants of the loops\<close>

lemma scalar_loop_inv:
  assumes "\<And>d M. Q M \<Longrightarrow> Q (body d M)"
  shows "Q M \<Longrightarrow> Q (scalar_loop sz body d M)"
proof (induction "sz - d" arbitrary: d M rule: less_induct)
  case less
  show ?case
  proof (cases "d < sz")
    case True
    have "sz - (d + 1) < sz - d" using True by simp
    from less.hyps[OF this] assms[OF less.prems] True show ?thesis
      by (simp add: scalar_loop.simps[of sz body d M])
  next
    case False
    then show ?thesis using less.prems by (simp add: scalar_loop.simps[of sz body d M])
  qed
qed

lemma vec_loop_inv:
  assumes "\<And>d M. Q M \<Longrightarrow> Q (body d M)"
  shows "Q M \<Longrightarrow> Q (snd (vec_loop W sz body d M))"
proof (induction "sz - d" arbitrary: d M rule: less_induct)
  case less
  show ?case
  proof (cases "d < sz - sz mod W")
    case True
    then have "0 < W" by (cases "W = 0") auto
    then have "sz - (d + W) < sz - d" using True by linarith
    from less.hyps[OF this] assms[OF less.prems] True show ?thesis
      by (simp add: vec_loop.simps[of W sz body d M])
  next
    case False
    then show ?thesis using less.prems by (simp add: vec_loop.simps[of W sz body d M])
  qed
qed

lemma parallel_for_inv:
  assumes "\<And>b e M. Q M \<Longrightarrow> Q (f b e M)"
  shows "Q M \<Longrightarrow> Q (parallel_for shards f M)"
proof (induction shards arbitrary: M)
  case (Cons s shards)
  obtain b e where s: "s = (b, e)" by (cases s)
  show ?case using Cons.IH[OF assms[OF Cons.prems, of b e]] s by simp
qed simp

lemma adam_math_lp_inv:
  assumes w: "\<And>d M. Q M \<Longrightarrow> Q (wide_step_lp A mode a h p d M)"
    and t: "\<And>d M. Q M \<Longrightarrow> Q (tail_step_lp A mode a p d M)"
  shows "Q M \<Longrightarrow> Q (adam_math_lp A mode a h p sz M)"
  unfolding adam_math_lp_def
  by (simp add: split_beta scalar_loop_inv[where Q = Q, OF t] vec_loop_inv[where Q = Q, OF w])

lemma adam_math_fp_inv:
  assumes w: "\<And>d M. Q M \<Longrightarrow> Q (wide_step_fp A mode a w p d M)"
    and t: "\<And>d M. Q M \<Longrightarrow> Q (tail_step_fp A mode a p d M)"
  shows "Q M \<Longrightarrow> Q (adam_math_fp A mode a w p sz M)"
  unfolding adam_math_fp_def
  by (simp add: split_beta scalar_loop_inv[where Q = Q, OF t] vec_loop_inv[where Q = Q, OF w])

lemma tail_step_fp_grad:
  "grad (tail_step_fp A mode a p d M) =
     (case grad_scale_ptr a of None \<Rightarrow> grad M | Some s \<Rightarrow> (grad M)[p + d := fdiv A (grad M ! (p + d)) s])"
  by (cases mode; cases "grad_scale_ptr a") (simp_all add: tail_step_fp_def Let_def)

lemma grad_frame_lp:
  "grad_scale_ptr a = None \<Longrightarrow> grad (adam_math_lp A mode a h p sz M) = grad M"
  by (rule adam_math_lp_inv[where Q = "\<lambda>M'. grad M' = grad M"])
     (simp_all add: wide_step_lp_nf tail_step_lp_nf)

lemma grad_frame_fp:
  "grad_scale_ptr a = None \<Longrightarrow> grad (adam_math_fp A mode a w p sz M) = grad M"
  by (rule adam_math_fp_inv[where Q = "\<lambda>M'. grad M' = grad M"])
     (simp_all add: wide_step_fp_nf tail_step_fp_grad)

lemma adam_math_lp_zero: "adam_math_lp A mode a h p 0 M = M"
  by (simp add: adam_math_lp_def vec_loop.simps[of _ 0] scalar_loop.simps[of 0])

lemma adam_math_fp_zero: "adam_math_fp A mode a w p 0 M = M"
  by (simp add: adam_math_fp_def vec_loop.simps[of _ 0] scalar_loop.simps[of 0])

lemma parallel_for_zero:
  assumes "\<And>b M. f b b M = M"
  shows "is_partition 0 0 shards \<Longrightarrow> parallel_for shards f M = M"
proof (induction shards)
  case (Cons s shards)
  obtain b e where s: "s = (b, e)" by (cases s)
  from Cons.prems s have p: "b = 0" "is_partition e 0 shards" by auto
  from is_partition_le[OF p(2)] have "e = 0" by simp
  with Cons.IH p s assms[of 0 M] show ?case by simp
qed simp

section \<open>Properties of the update\<close>

subsection \<open>The gradient buffer\<close>

lemma step_scalars_sel [simp]:
  "grad_scale_ptr (step_scalars D A hp gs) = gs"
  "maximize (step_scalars D A hp gs) = hp_maximize hp"
  "weight_decay (step_scalars D A hp gs) = narrow D (hp_weight_decay hp)"
  by (simp_all add: step_scalars_def Let_def)

lemma elem_grad:
  "c_grad (elem mx up dn A mode a g gm c) =
     (case grad_scale_ptr a of None \<Rightarrow> c_grad c | Some s \<Rightarrow> dn (fdiv A (up (c_grad c)) s))"
  by (simp add: elem_def Let_def)

lemma math_cell_lp_grad:
  "c_grad (math_cell_lp A mode a h p sz c i) =
     (case grad_scale_ptr a of None \<Rightarrow> c_grad (c i)
      | Some s \<Rightarrow> to_scalar A (fdiv A (to_opmath A (c_grad (c i))) s))"
  by (simp add: math_cell_lp_def wide_elem_lp_def tail_elem_lp_def elem_grad Let_def)

lemma math_cell_fp_grad:
  "c_grad (math_cell_fp A mode a w p sz c i) =
     (case grad_scale_ptr a of None \<Rightarrow> c_grad (c i) | Some s \<Rightarrow> fdiv A (c_grad (c i)) s)"
  by (simp add: math_cell_fp_def wide_elem_fp_def tail_elem_fp_def elem_grad Let_def)

lemma impl_lp_cell_covered:
  fixes M :: "'s bufs" and A :: "('s, 'o) fp_ops"
  assumes "fits (hp_amsgrad hp) N M" "is_partition 0 N shards" "i < N"
  shows "\<exists>b e. b \<le> i \<and> i < e \<and> e \<le> N \<and> cell (adam_fused_step_impl_lp D A mode h shards hp gs M) i =
            math_cell_lp A mode (step_scalars D A hp gs) h b (e - b) (cell M) i"
proof -
  obtain b e where s: "shard_of shards i = Some (b, e)"
    using shard_of_Some[OF assms(2) _ assms(3)] by auto
  from shard_of_SomeD[OF assms(2) s] have "b \<le> i" "i < e" "e \<le> N" by auto
  moreover have "cell (adam_fused_step_impl_lp D A mode h shards hp gs M) i =
            math_cell_lp A mode (step_scalars D A hp gs) h b (e - b) (cell M) i"
    using impl_lp_cells[OF assms(1,2), of D A mode h gs] assms(3) s by simp
  ultimately show ?thesis by blast
qed

lemma impl_fp_cell_covered:
  fixes M :: "'o bufs" and A :: "('s, 'o) fp_ops"
  assumes "fits (hp_amsgrad hp) N M" "is_partition 0 N shards" "i < N"
  shows "\<exists>b e. b \<le> i \<and> i < e \<and> e \<le> N \<and> cell (adam_fused_step_impl_fp D A mode w shards hp gs M) i =
            math_cell_fp A mode (step_scalars D A hp gs) w b (e - b) (cell M) i"
proof -
  obtain b e where s: "shard_of shards i = Some (b, e)"
    using shard_of_Some[OF assms(2) _ assms(3)] by auto
  from shard_of_SomeD[OF assms(2) s] have "b \<le> i" "i < e" "e \<le> N" by auto
  moreover have "cell (adam_fused_step_impl_fp D A mode w shards hp gs M) i =
            math_cell_fp A mode (step_scalars D A hp gs) w b (e - b) (cell M) i"
    using impl_fp_cells[OF assms(1,2), of D A mode w gs] assms(3) s by simp
  ultimately show ?thesis by blast
qed

lemma impl_lp_grad_nth:
  fixes M :: "'s bufs" and A :: "('s, 'o) fp_ops"
  assumes "fits (hp_amsgrad hp) N M" "is_partition 0 N shards" "i < N"
  shows "grad (adam_fused_step_impl_lp D A mode h shards hp (Some s) M) ! i =
           to_scalar A (fdiv A (to_opmath A (grad M ! i)) s)"
proof -
  from impl_lp_cell_covered[OF assms, of D A mode h "Some s"] obtain b e where
    "cell (adam_fused_step_impl_lp D A mode h shards hp (Some s) M) i =
            math_cell_lp A mode (step_scalars D A hp (Some s)) h b (e - b) (cell M) i" by blast
  from arg_cong[OF this, of c_grad] show ?thesis by (simp add: math_cell_lp_grad)
qed

lemma impl_fp_grad_nth:
  fixes M :: "'o bufs" and A :: "('s, 'o) fp_ops"
  assumes "fits (hp_amsgrad hp) N M" "is_partition 0 N shards" "i < N"
  shows "grad (adam_fused_step_impl_fp D A mode w shards hp (Some s) M) ! i = fdiv A (grad M ! i) s"
proof -
  from impl_fp_cell_covered[OF assms, of D A mode w "Some s"] obtain b e where
    "cell (adam_fused_step_impl_fp D A mode w shards hp (Some s) M) i =
            math_cell_fp A mode (step_scalars D A hp (Some s)) w b (e - b) (cell M) i" by blast
  from arg_cong[OF this, of c_grad] show ?thesis by (simp add: math_cell_fp_grad)
qed

lemma impl_lp_grad_frame:
  "grad (adam_fused_step_impl_lp D A mode h shards hp None M) = grad M"
  unfolding adam_fused_step_impl_lp_def
  by (rule parallel_for_inv[where Q = "\<lambda>M'. grad M' = grad M"]) (simp_all add: grad_frame_lp)

lemma impl_fp_grad_frame:
  "grad (adam_fused_step_impl_fp D A mode w shards hp None M) = grad M"
  unfolding adam_fused_step_impl_fp_def
  by (rule parallel_for_inv[where Q = "\<lambda>M'. grad M' = grad M"]) (simp_all add: grad_frame_fp)

subsection \<open>The running maximum\<close>

text \<open>
  With \<open>amsgrad\<close> set, the value stored in \<open>max_exp_avg_sq\<close> is the maximum of the loop,
  applied to the value that was there and to the second moment \<open>v\<close> that is stored in
  \<open>exp_avg_sq\<close>. It is an upper bound of both when neither is NaN, for \<open>std::max\<close>
  by what \<open><\<close> is among numbers, and after conversion to the storage type when the
  conversion is monotone.
\<close>

lemma elem_amsgrad:
  assumes "amsgrad a"
  shows "\<exists>v. c_exp_avg_sq (elem mx up dn A mode a g gm c) = dn v \<and>
             c_max (elem mx up dn A mode a g gm c) = dn (mx (up (c_max c)) v)"
  using assms by (auto simp add: elem_def Let_def)

lemma elem_monotone:
  assumes ams: "amsgrad a"
    and upper: "\<And>x y. \<not> nan x \<Longrightarrow> \<not> nan y \<Longrightarrow> le x (mx x y) \<and> le y (mx x y)"
    and mono: "\<And>x y. le x y \<Longrightarrow> le (up (dn x)) (up (dn y))"
    and rt: "\<And>x. up (dn (up x)) = up x"
    and keep: "\<And>x. nan x \<Longrightarrow> nan (up (dn x))"
    and n: "\<not> nan (up (c_max c))" "\<not> nan (up (c_exp_avg_sq (elem mx up dn A mode a g gm c)))"
  shows "le (up (c_max c)) (up (c_max (elem mx up dn A mode a g gm c))) \<and>
         le (up (c_exp_avg_sq (elem mx up dn A mode a g gm c))) (up (c_max (elem mx up dn A mode a g gm c)))"
proof -
  from elem_amsgrad[OF ams, of mx up dn A mode g gm c] obtain v where
    v: "c_exp_avg_sq (elem mx up dn A mode a g gm c) = dn v"
       "c_max (elem mx up dn A mode a g gm c) = dn (mx (up (c_max c)) v)" by blast
  have nv: "\<not> nan v" using n(2) keep[of v] unfolding v(1) by blast
  from upper[OF n(1) nv] have "le (up (c_max c)) (mx (up (c_max c)) v)" "le v (mx (up (c_max c)) v)"
    by simp_all
  from mono[OF this(1)] mono[OF this(2)] show ?thesis
    unfolding v by (simp add: rt)
qed

lemma math_cell_lp_monotone:
  fixes A :: "('s, 'o) fp_ops"
  assumes ams: "amsgrad a"
    and refl: "\<And>x. \<not> nan x \<Longrightarrow> le x x"
    and less: "\<And>x y. fless A x y \<Longrightarrow> le x y"
    and total: "\<And>x y. \<not> nan x \<Longrightarrow> \<not> nan y \<Longrightarrow> \<not> fless A x y \<Longrightarrow> le y x"
    and vmax: "\<And>x y. \<not> nan x \<Longrightarrow> \<not> nan y \<Longrightarrow> le x (fmaximum A x y) \<and> le y (fmaximum A x y)"
    and mono: "\<And>x y. le x y \<Longrightarrow> le (to_opmath A (to_scalar A x)) (to_opmath A (to_scalar A y))"
    and rt: "\<And>x. to_opmath A (to_scalar A (to_opmath A x)) = to_opmath A x"
    and keep: "\<And>x. nan x \<Longrightarrow> nan (to_opmath A (to_scalar A x))"
    and n: "\<not> nan (to_opmath A (c_max (c i)))"
       "\<not> nan (to_opmath A (c_exp_avg_sq (math_cell_lp A mode a h p sz c i)))"
  shows "le (to_opmath A (c_max (c i))) (to_opmath A (c_max (math_cell_lp A mode a h p sz c i))) \<and>
         le (to_opmath A (c_exp_avg_sq (math_cell_lp A mode a h p sz c i)))
            (to_opmath A (c_max (math_cell_lp A mode a h p sz c i)))"
proof (cases "i < p + (sz - sz mod (2 * h))")
  case True
  then have e: "math_cell_lp A mode a h p sz c i =
      elem (fmaximum A) (to_opmath A) (to_scalar A) A mode a
        (wide_grad A mode a (to_opmath A (c_param (c i))) (to_opmath A (c_grad (c i))))
        (wide_grad A mode a (to_opmath A (c_param (c (prt_lp h p i)))) (to_opmath A (c_grad (c (prt_lp h p i)))))
        (c i)"
    by (simp add: math_cell_lp_def wide_elem_lp_def)
  show ?thesis
    unfolding e
    by (rule elem_monotone[where nan = nan and le = le and mx = "fmaximum A" and up = "to_opmath A"
          and dn = "to_scalar A", OF ams vmax mono rt keep n[unfolded e]])
next
  case False
  then have e: "math_cell_lp A mode a h p sz c i =
      elem (std_max A) (to_opmath A) (to_scalar A) A mode a
        (tail_grad A mode a (to_opmath A (c_param (c i))) (to_opmath A (c_grad (c i))))
        (tail_grad A mode a (to_opmath A (c_param (c i))) (to_opmath A (c_grad (c i))))
        (c i)"
    by (simp add: math_cell_lp_def tail_elem_lp_def Let_def)
  have upper: "le x (std_max A x y) \<and> le y (std_max A x y)" if "\<not> nan x" "\<not> nan y" for x y
    using refl[OF that(1)] refl[OF that(2)] less[of x y] total[OF that] by (simp add: std_max_def)
  show ?thesis
    unfolding e
    by (rule elem_monotone[where nan = nan and le = le and mx = "std_max A" and up = "to_opmath A"
          and dn = "to_scalar A", OF ams upper mono rt keep n[unfolded e]])
qed

lemma math_cell_fp_monotone:
  fixes A :: "('s, 'o) fp_ops"
  assumes ams: "amsgrad a"
    and refl: "\<And>x. \<not> nan x \<Longrightarrow> le x x"
    and less: "\<And>x y. fless A x y \<Longrightarrow> le x y"
    and total: "\<And>x y. \<not> nan x \<Longrightarrow> \<not> nan y \<Longrightarrow> \<not> fless A x y \<Longrightarrow> le y x"
    and vmax: "\<And>x y. \<not> nan x \<Longrightarrow> \<not> nan y \<Longrightarrow> le x (fmaximum A x y) \<and> le y (fmaximum A x y)"
    and n: "\<not> nan (c_max (c i))" "\<not> nan (c_exp_avg_sq (math_cell_fp A mode a w p sz c i))"
  shows "le (c_max (c i)) (c_max (math_cell_fp A mode a w p sz c i)) \<and>
         le (c_exp_avg_sq (math_cell_fp A mode a w p sz c i)) (c_max (math_cell_fp A mode a w p sz c i))"
proof (cases "i < p + (sz - sz mod w)")
  case True
  then have e: "math_cell_fp A mode a w p sz c i =
      elem (fmaximum A) (\<lambda>x. x) (\<lambda>x. x) A mode a
        (wide_grad A mode a (c_param (c i)) (c_grad (c i)))
        (wide_grad A mode a (c_param (c i)) (c_grad (c i))) (c i)"
    by (simp add: math_cell_fp_def wide_elem_fp_def Let_def)
  show ?thesis
    using n unfolding e
    using elem_monotone[where nan = nan and le = le and mx = "fmaximum A" and up = "\<lambda>x. x"
          and dn = "\<lambda>x. x" and a = a and A = A and mode = mode and c = "c i"
          and g = "wide_grad A mode a (c_param (c i)) (c_grad (c i))"
          and gm = "wide_grad A mode a (c_param (c i)) (c_grad (c i))", OF ams vmax]
    by simp
next
  case False
  then have e: "math_cell_fp A mode a w p sz c i =
      elem (std_max A) (\<lambda>x. x) (\<lambda>x. x) A mode a
        (tail_grad A mode a (c_param (c i)) (c_grad (c i)))
        (tail_grad A mode a (c_param (c i)) (c_grad (c i))) (c i)"
    by (simp add: math_cell_fp_def tail_elem_fp_def Let_def)
  have upper: "le x (std_max A x y) \<and> le y (std_max A x y)" if "\<not> nan x" "\<not> nan y" for x y
    using refl[OF that(1)] refl[OF that(2)] less[of x y] total[OF that] by (simp add: std_max_def)
  show ?thesis
    using n unfolding e
    using elem_monotone[where nan = nan and le = le and mx = "std_max A" and up = "\<lambda>x. x"
          and dn = "\<lambda>x. x" and a = a and A = A and mode = mode and c = "c i"
          and g = "tail_grad A mode a (c_param (c i)) (c_grad (c i))"
          and gm = "tail_grad A mode a (c_param (c i)) (c_grad (c i))", OF ams upper]
    by simp
qed

subsection \<open>Maximising and the negated gradient\<close>

lemma elem_maximize [simp]: "elem mx up dn A mode (a\<lparr>maximize := b\<rparr>) g gm c = elem mx up dn A mode a g gm c"
  by (simp add: elem_def)

lemma elem_neg_cell:
  "grad_scale_ptr a = None \<Longrightarrow>
   elem mx up dn A mode a g gm (neg_cell ng c) = (elem mx up dn A mode a g gm c)\<lparr>c_grad := ng (c_grad c)\<rparr>"
  by (simp add: elem_def neg_cell_def Let_def)

lemma elem_grad_None: "grad_scale_ptr a = None \<Longrightarrow> c_grad (elem mx up dn A mode a g gm c) = c_grad c"
  by (simp add: elem_def Let_def)

lemma wide_grad_maximize:
  assumes "\<And>y. fmul A y (minus_one A) = fneg A y" "grad_scale_ptr a = None" "maximize a"
  shows "wide_grad A mode (a\<lparr>maximize := False\<rparr>) pv (fneg A gv) = wide_grad A mode a pv gv"
  using assms by (simp add: wide_grad_def unscaled_def Let_def)

lemma tail_grad_maximize:
  assumes "grad_scale_ptr a = None" "maximize a"
  shows "tail_grad A mode (a\<lparr>maximize := False\<rparr>) pv (fneg A gv) = tail_grad A mode a pv gv"
  using assms by (simp add: tail_grad_def unscaled_def Let_def)

lemma cell_upd_same: "c_grad x = g \<Longrightarrow> x\<lparr>c_grad := ng g\<rparr>\<lparr>c_grad := g\<rparr> = x"
  by (cases x) simp

lemma math_cell_lp_maximize:
  fixes A :: "('s, 'o) fp_ops"
  assumes h1: "\<And>x. to_opmath A (to_scalar A (fneg A (to_opmath A x))) = fneg A (to_opmath A x)"
    and h2: "\<And>y. fmul A y (minus_one A) = fneg A y"
    and a: "grad_scale_ptr a = None" "maximize a"
  shows "(math_cell_lp A mode (a\<lparr>maximize := False\<rparr>) h p sz
           (\<lambda>k. neg_cell (\<lambda>g. to_scalar A (fneg A (to_opmath A g))) (c k)) i)\<lparr>c_grad := c_grad (c i)\<rparr>
         = math_cell_lp A mode a h p sz c i"
proof -
  let ?ng = "\<lambda>g. to_scalar A (fneg A (to_opmath A g))"
  have p: "c_param (neg_cell ?ng x) = c_param x" "c_grad (neg_cell ?ng x) = ?ng (c_grad x)" for x
    by (simp_all add: neg_cell_def)
  show ?thesis
    using a
    by (simp add: math_cell_lp_def wide_elem_lp_def tail_elem_lp_def Let_def p h1
        wide_grad_maximize[OF h2 a] tail_grad_maximize[OF a] elem_neg_cell cell_upd_same elem_grad_None)
qed

lemma math_cell_fp_maximize:
  fixes A :: "('s, 'o) fp_ops"
  assumes h2: "\<And>y. fmul A y (minus_one A) = fneg A y"
    and a: "grad_scale_ptr a = None" "maximize a"
  shows "(math_cell_fp A mode (a\<lparr>maximize := False\<rparr>) w p sz
           (\<lambda>k. neg_cell (fneg A) (c k)) i)\<lparr>c_grad := c_grad (c i)\<rparr>
         = math_cell_fp A mode a w p sz c i"
proof -
  have p: "c_param (neg_cell (fneg A) x) = c_param x" "c_grad (neg_cell (fneg A) x) = fneg A (c_grad x)" for x
    by (simp_all add: neg_cell_def)
  show ?thesis
    using a
    by (simp add: math_cell_fp_def wide_elem_fp_def tail_elem_fp_def Let_def p
        wide_grad_maximize[OF h2 a] tail_grad_maximize[OF a] elem_neg_cell cell_upd_same elem_grad_None)
qed

lemma step_scalars_maximize:
  "step_scalars D A (hp\<lparr>hp_maximize := mx\<rparr>) gs = (step_scalars D A hp gs)\<lparr>maximize := mx\<rparr>"
  by (simp add: step_scalars_def Let_def)

lemma cell_neg_grad:
  "i < length (grad M) \<Longrightarrow> cell (M\<lparr>grad := map ng (grad M)\<rparr>) i = neg_cell ng (cell M i)"
  by (simp add: cell_def neg_cell_def)

lemma fits_neg_grad: "fits ams N (M\<lparr>grad := map ng (grad M)\<rparr>) = fits ams N M"
  by (simp add: fits_def)

lemma impl_lp_maximize_cells:
  fixes M :: "'s bufs" and A :: "('s, 'o) fp_ops"
  assumes h1: "\<And>x. to_opmath A (to_scalar A (fneg A (to_opmath A x))) = fneg A (to_opmath A x)"
    and h2: "\<And>y. fmul A y (minus_one A) = fneg A y"
    and f: "fits (hp_amsgrad hp) N M" and part: "is_partition 0 N shards" and i: "i < N"
  shows "(cell (adam_fused_step_impl_lp D A mode h shards (hp\<lparr>hp_maximize := False\<rparr>) None
            (M\<lparr>grad := map (\<lambda>g. to_scalar A (fneg A (to_opmath A g))) (grad M)\<rparr>)) i)\<lparr>c_grad := grad M ! i\<rparr>
         = cell (adam_fused_step_impl_lp D A mode h shards (hp\<lparr>hp_maximize := True\<rparr>) None M) i"
proof -
  let ?ng = "\<lambda>g. to_scalar A (fneg A (to_opmath A g))"
  let ?M2 = "M\<lparr>grad := map ?ng (grad M)\<rparr>"
  let ?a = "(step_scalars D A hp None)\<lparr>maximize := True\<rparr>"
  have N: "length (grad M) = N" using f by (simp add: fits_def)
  obtain b e where s: "shard_of shards i = Some (b, e)"
    using shard_of_Some[OF part _ i] by auto
  from shard_of_SomeD[OF part s] have be: "b \<le> i" "i < e" "e \<le> N" by auto
  have f1: "fits (hp_amsgrad (hp\<lparr>hp_maximize := True\<rparr>)) N M" using f by simp
  have f2: "fits (hp_amsgrad (hp\<lparr>hp_maximize := False\<rparr>)) N ?M2" using f by (simp add: fits_neg_grad)
  have c1: "cell (adam_fused_step_impl_lp D A mode h shards (hp\<lparr>hp_maximize := True\<rparr>) None M) i =
      math_cell_lp A mode ?a h b (e - b) (cell M) i"
    using impl_lp_cells[OF f1 part, of D A mode h None] i s by (simp add: step_scalars_maximize)
  have c2: "cell (adam_fused_step_impl_lp D A mode h shards (hp\<lparr>hp_maximize := False\<rparr>) None ?M2) i =
      math_cell_lp A mode (?a\<lparr>maximize := False\<rparr>) h b (e - b) (cell ?M2) i"
    using impl_lp_cells[OF f2 part, of D A mode h None] i s by (simp add: step_scalars_maximize)
  have "\<forall>k. b \<le> k \<and> k < e \<longrightarrow> cell ?M2 k = neg_cell ?ng (cell M k)"
    using be N by (simp add: cell_neg_grad)
  from math_cell_lp_local[OF this be(1,2)]
  have c3: "math_cell_lp A mode (?a\<lparr>maximize := False\<rparr>) h b (e - b) (cell ?M2) i =
      math_cell_lp A mode (?a\<lparr>maximize := False\<rparr>) h b (e - b) (\<lambda>k. neg_cell ?ng (cell M k)) i" .
  have "(math_cell_lp A mode (?a\<lparr>maximize := False\<rparr>) h b (e - b) (\<lambda>k. neg_cell ?ng (cell M k)) i)
          \<lparr>c_grad := c_grad (cell M i)\<rparr> = math_cell_lp A mode ?a h b (e - b) (cell M) i"
    by (rule math_cell_lp_maximize[OF h1 h2]) simp_all
  then show ?thesis unfolding c1 c2 c3 by simp
qed

lemma impl_fp_maximize_cells:
  fixes M :: "'o bufs" and A :: "('s, 'o) fp_ops"
  assumes h2: "\<And>y. fmul A y (minus_one A) = fneg A y"
    and f: "fits (hp_amsgrad hp) N M" and part: "is_partition 0 N shards" and i: "i < N"
  shows "(cell (adam_fused_step_impl_fp D A mode w shards (hp\<lparr>hp_maximize := False\<rparr>) None
            (M\<lparr>grad := map (fneg A) (grad M)\<rparr>)) i)\<lparr>c_grad := grad M ! i\<rparr>
         = cell (adam_fused_step_impl_fp D A mode w shards (hp\<lparr>hp_maximize := True\<rparr>) None M) i"
proof -
  let ?M2 = "M\<lparr>grad := map (fneg A) (grad M)\<rparr>"
  let ?a = "(step_scalars D A hp None)\<lparr>maximize := True\<rparr>"
  have N: "length (grad M) = N" using f by (simp add: fits_def)
  obtain b e where s: "shard_of shards i = Some (b, e)"
    using shard_of_Some[OF part _ i] by auto
  from shard_of_SomeD[OF part s] have be: "b \<le> i" "i < e" "e \<le> N" by auto
  have f1: "fits (hp_amsgrad (hp\<lparr>hp_maximize := True\<rparr>)) N M" using f by simp
  have f2: "fits (hp_amsgrad (hp\<lparr>hp_maximize := False\<rparr>)) N ?M2" using f by (simp add: fits_neg_grad)
  have c1: "cell (adam_fused_step_impl_fp D A mode w shards (hp\<lparr>hp_maximize := True\<rparr>) None M) i =
      math_cell_fp A mode ?a w b (e - b) (cell M) i"
    using impl_fp_cells[OF f1 part, of D A mode w None] i s by (simp add: step_scalars_maximize)
  have c2: "cell (adam_fused_step_impl_fp D A mode w shards (hp\<lparr>hp_maximize := False\<rparr>) None ?M2) i =
      math_cell_fp A mode (?a\<lparr>maximize := False\<rparr>) w b (e - b) (cell ?M2) i"
    using impl_fp_cells[OF f2 part, of D A mode w None] i s by (simp add: step_scalars_maximize)
  have "\<forall>k. b \<le> k \<and> k < e \<longrightarrow> cell ?M2 k = neg_cell (fneg A) (cell M k)"
    using be N by (simp add: cell_neg_grad)
  from math_cell_fp_local[OF this be(1,2)]
  have c3: "math_cell_fp A mode (?a\<lparr>maximize := False\<rparr>) w b (e - b) (cell ?M2) i =
      math_cell_fp A mode (?a\<lparr>maximize := False\<rparr>) w b (e - b) (\<lambda>k. neg_cell (fneg A) (cell M k)) i" .
  have "(math_cell_fp A mode (?a\<lparr>maximize := False\<rparr>) w b (e - b) (\<lambda>k. neg_cell (fneg A) (cell M k)) i)
          \<lparr>c_grad := c_grad (cell M i)\<rparr> = math_cell_fp A mode ?a w b (e - b) (cell M) i"
    by (rule math_cell_fp_maximize[OF h2]) simp_all
  then show ?thesis unfolding c1 c2 c3 by simp
qed

lemma three_fields_eqI:
  assumes f1: "fits a1 N R1" and f2: "fits a2 N R2"
    and c: "\<And>i. i < N \<Longrightarrow> (cell R2 i)\<lparr>c_grad := g i\<rparr> = cell R1 i"
  shows "param R1 = param R2 \<and> exp_avg R1 = exp_avg R2 \<and> exp_avg_sq R1 = exp_avg_sq R2"
proof -
  have l: "length (param R1) = N" "length (param R2) = N" "length (exp_avg R1) = N"
    "length (exp_avg R2) = N" "length (exp_avg_sq R1) = N" "length (exp_avg_sq R2) = N"
    using f1 f2 by (simp_all add: fits_def)
  have "param R1 ! i = param R2 ! i \<and> exp_avg R1 ! i = exp_avg R2 ! i \<and>
        exp_avg_sq R1 ! i = exp_avg_sq R2 ! i" if "i < N" for i
    using arg_cong[OF c[OF that], of c_param] arg_cong[OF c[OF that], of c_exp_avg]
      arg_cong[OF c[OF that], of c_exp_avg_sq] by simp
  then show ?thesis
    using l by (auto intro: nth_equalityI)
qed

subsection \<open>The sample inputs\<close>

lemma sample_facts:
  "is_partition 0 2 [(0, 1), (1, 2)]" "fits ams 2 two_bufs"
  "hp_amsgrad (sample_hp wd ams mx) = ams"
  by (simp_all add: fits_def two_bufs_def sample_hp_def)

lemma elem_second_moment:
  "c_exp_avg_sq (elem mx up dn A mode a g gm c) =
     dn (fadd A (fmul A (up (c_exp_avg_sq c)) (beta2 a)) (fmul A (fmul A (exp_avg_sq_grad_coefficient a) g) g))"
  "amsgrad a \<Longrightarrow> c_max (elem mx up dn A mode a g gm c) =
     dn (mx (up (c_max c))
       (fadd A (fmul A (up (c_exp_avg_sq c)) (beta2 a)) (fmul A (fmul A (exp_avg_sq_grad_coefficient a) g) g)))"
  by (simp_all add: elem_def Let_def)

lemma nan_facts:
  "fits True 4 nan_bufs" "is_partition 0 4 [(0, 4)]" "is_partition 0 4 [(0, 2), (2, 4)]"
  "cell nan_bufs 0 = \<lparr>c_param = Some 1, c_exp_avg = Some 0, c_exp_avg_sq = Some 0, c_grad = None, c_max = Some 1\<rparr>"
  "cell nan_bufs 1 = \<lparr>c_param = Some 1, c_exp_avg = Some 0, c_exp_avg_sq = Some 0, c_grad = Some 2, c_max = Some 1\<rparr>"
  by (simp_all add: fits_def nan_bufs_def cell_def)

lemma nan_wide_cells:
  "c_max (wide_elem_fp nan_ops ORIGINAL (step_scalars nan_dbl nan_ops (sample_hp 0 True False) None)
      (cell nan_bufs 0)) = None"
  "c_exp_avg_sq (wide_elem_fp nan_ops ORIGINAL (step_scalars nan_dbl nan_ops (sample_hp 0 True False) None)
      (cell nan_bufs 1)) = Some 1"
  by (simp_all add: wide_elem_fp_def elem_second_moment wide_grad_def unscaled_def cell_def nan_bufs_def
       Let_def step_scalars_def sample_hp_def nan_dbl_def)
     (simp_all add: nan_ops_def nan_lift_def)

lemma nan_tail_cells:
  "c_max (tail_elem_fp nan_ops ORIGINAL (step_scalars nan_dbl nan_ops (sample_hp 0 True False) None)
      (cell nan_bufs 0)) = Some 1"
  "c_exp_avg_sq (tail_elem_fp nan_ops ORIGINAL (step_scalars nan_dbl nan_ops (sample_hp 0 True False) None)
      (cell nan_bufs 0)) = None"
  by (simp_all add: tail_elem_fp_def elem_second_moment tail_grad_def unscaled_def cell_def nan_bufs_def
       Let_def step_scalars_def sample_hp_def nan_dbl_def std_max_def)
     (simp_all add: nan_ops_def nan_lift_def nan_less_def)

subsection \<open>Without weight decay\<close>

lemma wide_step_lp_nodecay_eq:
  "\<not> nonzero A (weight_decay a) \<Longrightarrow> wide_step_lp A mode a h p d M = wide_step_lp_nodecay A mode a h p d M"
  by (simp add: wide_step_lp_def wide_step_lp_nodecay_def)

lemma tail_step_lp_nodecay_eq:
  "\<not> nonzero A (weight_decay a) \<Longrightarrow> tail_step_lp A mode a p d M = tail_step_lp_nodecay A mode a p d M"
  by (simp add: tail_step_lp_def tail_step_lp_nodecay_def)

lemma wide_step_fp_nodecay_eq:
  "\<not> nonzero A (weight_decay a) \<Longrightarrow> wide_step_fp A mode a w p d M = wide_step_fp_nodecay A mode a w p d M"
  by (simp add: wide_step_fp_def wide_step_fp_nodecay_def)

lemma tail_step_fp_nodecay_eq:
  "\<not> nonzero A (weight_decay a) \<Longrightarrow> tail_step_fp A mode a p d M = tail_step_fp_nodecay A mode a p d M"
  by (simp add: tail_step_fp_def tail_step_fp_nodecay_def)

lemma scalar_loop_cong:
  assumes "\<And>d M. body d M = body' d M"
  shows "scalar_loop sz body d M = scalar_loop sz body' d M"
proof -
  have "body = body'" using assms by (intro ext)
  then show ?thesis by simp
qed

lemma adam_math_lp_nodecay_eq:
  assumes "\<not> nonzero A (weight_decay a)"
  shows "adam_math_lp A mode a h p sz M = adam_math_lp_nodecay A mode a h p sz M"
proof -
  have "wide_step_lp A mode a h p = wide_step_lp_nodecay A mode a h p"
    using wide_step_lp_nodecay_eq[OF assms] by (intro ext)
  moreover have "tail_step_lp A mode a p = tail_step_lp_nodecay A mode a p"
    using tail_step_lp_nodecay_eq[OF assms] by (intro ext)
  ultimately show ?thesis by (simp add: adam_math_lp_def adam_math_lp_nodecay_def)
qed

lemma adam_math_fp_nodecay_eq:
  assumes "\<not> nonzero A (weight_decay a)"
  shows "adam_math_fp A mode a w p sz M = adam_math_fp_nodecay A mode a w p sz M"
proof -
  have "wide_step_fp A mode a w p = wide_step_fp_nodecay A mode a w p"
    using wide_step_fp_nodecay_eq[OF assms] by (intro ext)
  moreover have "tail_step_fp A mode a p = tail_step_fp_nodecay A mode a p"
    using tail_step_fp_nodecay_eq[OF assms] by (intro ext)
  ultimately show ?thesis by (simp add: adam_math_fp_def adam_math_fp_nodecay_def)
qed

subsection \<open>The two passes on their own\<close>

lemma wide_pass_lp_cells:
  fixes M :: "'s bufs" and A :: "('s, 'o) fp_ops"
  assumes f: "fits (amsgrad a) n M" and n: "p + sz \<le> n" and i: "i < n"
  shows "cell (snd (vec_loop (2 * h) sz (wide_step_lp A mode a h p) 0 M)) i =
        (if p \<le> i \<and> i < p + (sz - sz mod (2 * h))
         then wide_elem_lp A mode a (cell M i) (cell M (prt_lp h p i)) else cell M i)"
proof -
  define B where "B = sz - sz mod (2 * h)"
  have "fst (vec_loop (2 * h) sz (wide_step_lp A mode a h p) 0 M) = B \<and>
     fits (amsgrad a) n (snd (vec_loop (2 * h) sz (wide_step_lp A mode a h p) 0 M)) \<and>
     (\<forall>i<n. cell (snd (vec_loop (2 * h) sz (wide_step_lp A mode a h p) 0 M)) i =
        (if p + 0 \<le> i \<and> i < p + B then wide_elem_lp A mode a (cell M i) (cell M (prt_lp h p i)) else cell M i))"
  proof (rule vec_loop_cells[where P = "fits (amsgrad a) n" and n = n])
    fix d and M :: "'s bufs"
    assume a: "fits (amsgrad a) n M" "2 * h dvd d" "d + 2 * h \<le> sz"
    then have le: "p + d + 2 * h \<le> n" using n by linarith
    show "fits (amsgrad a) n (wide_step_lp A mode a h p d M) \<and>
          (\<forall>i<n. cell (wide_step_lp A mode a h p d M) i =
                 (if p + d \<le> i \<and> i < p + d + 2 * h
                  then wide_elem_lp A mode a (cell M i) (cell M (prt_lp h p i)) else cell M i))"
      using wide_step_lp_fits[OF a(1) le] wide_step_lp_cell[OF a(1) le] prt_lp_chunk(1)[OF a(2)]
      by auto
  next
    fix d i
    assume "2 * h dvd d" "p + d \<le> i" "i < p + d + 2 * h"
    then show "p + d \<le> prt_lp h p i \<and> prt_lp h p i < p + d + 2 * h"
      by (rule prt_lp_chunk(2))
  qed (use f n in \<open>simp_all add: B_def\<close>)
  then show ?thesis using i by (simp add: B_def)
qed

lemma tail_pass_lp_cells:
  fixes M :: "'s bufs" and A :: "('s, 'o) fp_ops"
  assumes f: "fits (amsgrad a) n M" and n: "p + sz \<le> n" and i: "i < n"
  shows "cell (scalar_loop sz (tail_step_lp A mode a p) d M) i =
        (if p + d \<le> i \<and> i < p + sz then tail_elem_lp A mode a (cell M i) else cell M i)"
proof -
  have "fits (amsgrad a) n (scalar_loop sz (tail_step_lp A mode a p) d M) \<and>
     (\<forall>i<n. cell (scalar_loop sz (tail_step_lp A mode a p) d M) i =
        (if p + d \<le> i \<and> i < p + sz then tail_elem_lp A mode a (cell M i) else cell M i))"
  proof (rule scalar_loop_cells[where P = "fits (amsgrad a) n"])
    fix d and M :: "'s bufs"
    assume a: "fits (amsgrad a) n M" "d < sz"
    then have "p + d < n" using n by linarith
    then show "fits (amsgrad a) n (tail_step_lp A mode a p d M) \<and>
        (\<forall>i<n. cell (tail_step_lp A mode a p d M) i =
           (if i = p + d then tail_elem_lp A mode a (cell M i) else cell M i))"
      using tail_step_lp_fits[OF a(1)] tail_step_lp_cell[OF a(1)] by auto
  qed (rule f)
  then show ?thesis using i by simp
qed

lemma lane_facts:
  "fits False 16 lane_bufs" "amsgrad lane_args = False"
  "cell lane_bufs 8 = \<lparr>c_param = 1, c_exp_avg = 0, c_exp_avg_sq = 0, c_grad = 2, c_max = [] ! 8\<rparr>"
  "cell lane_bufs 0 = \<lparr>c_param = 1, c_exp_avg = 0, c_exp_avg_sq = 0, c_grad = 0, c_max = [] ! 0\<rparr>"
  by (simp_all add: fits_def lane_bufs_def lane_args_def cell_def)

lemma sample_scalars:
  "step_scalars exact_dbl exact_ops (sample_hp 0 False False) None = lane_args"
  by (simp add: step_scalars_def exact_dbl_def exact_ops_def sample_hp_def lane_args_def Let_def
      real_sqrt_divide)

subsection \<open>Two elements through the entry point\<close>

lemma loops_two_tail:
  "adam_math_fp A mode a 8 0 2 M = tail_step_fp A mode a 0 1 (tail_step_fp A mode a 0 0 M)"
  by (simp add: adam_math_fp_def vec_loop.simps[of 8 2] scalar_loop.simps[of 2])

lemma tail_step_fp_grad_exp_avg:
  "grad_scale_ptr a = Some s \<Longrightarrow> \<not> maximize a \<Longrightarrow> \<not> nonzero A (weight_decay a) \<Longrightarrow>
   grad (tail_step_fp A mode a p d M) = (grad M)[p + d := fdiv A (grad M ! (p + d)) s] \<and>
   exp_avg (tail_step_fp A mode a p d M) = (exp_avg M)[p + d :=
      fadd A (exp_avg M ! (p + d))
        (fmul A (exp_avg_grad_coefficient a) (fsub A (fdiv A (grad M ! (p + d)) s) (exp_avg M ! (p + d))))]"
  by (cases "amsgrad a") (simp_all add: tail_step_fp_def Let_def)

lemma upt_0_2: "[0..<2] = [0, 1]"
  by code_simp
subsection \<open>Rounding\<close>

text \<open>
  \<open>round_to\<close> on a number whose binade is known, and on a square root: the result is
  \<open>m / 2^k\<close> when the scaled argument lies within a half of the integer \<open>m\<close>. The
  values below are those of the default \<open>beta2\<close> at the first step.
\<close>

lemma rne_eqI: "\<bar>x - of_int m\<bar> < 1 / 2 \<Longrightarrow> rne x = m"
proof (cases "of_int m \<le> x")
  case True
  assume a: "\<bar>x - of_int m\<bar> < 1 / 2"
  then have "\<lfloor>x\<rfloor> = m" using True by (intro floor_unique) auto
  then show ?thesis using a True by (simp add: rne_def Let_def)
next
  case False
  assume a: "\<bar>x - of_int m\<bar> < 1 / 2"
  then have f: "\<lfloor>x\<rfloor> = m - 1" using False by (intro floor_unique) auto
  have "1 / 2 < x - of_int (m - 1)" using a False by auto
  then show ?thesis using f by (simp add: rne_def Let_def)
qed

lemma two_powr_diff: "(2::real) powr (of_int (int a - int b)) = 2 ^ a / 2 ^ b"
  by (simp add: powr_diff powr_realpow)

lemma round_to_eqI:
  assumes x: "0 < x" and lo: "2 ^ (p - 1) \<le> x * 2 ^ k" and hi: "x * 2 ^ k < 2 ^ p"
    and m: "\<bar>x * 2 ^ k - of_int m\<bar> < 1 / 2" and p: "0 < p"
  shows "round_to p x = of_int m / 2 ^ k"
proof -
  have "(2::real) powr (of_int (int (p - 1) - int k)) \<le> x"
    using lo unfolding two_powr_diff by (simp add: field_simps)
  moreover have "x < (2::real) powr (of_int (int (p - 1) - int k + 1))"
  proof -
    have "int (p - 1) - int k + 1 = int p - int k" using p by simp
    then have "(2::real) powr (of_int (int (p - 1) - int k + 1)) = 2 ^ p / 2 ^ k"
      by (simp only: two_powr_diff)
    moreover have "x < 2 ^ p / 2 ^ k" using hi by (simp add: field_simps)
    ultimately show ?thesis by (simp only:)
  qed
  ultimately have "\<lfloor>log 2 x\<rfloor> = int (p - 1) - int k"
    using x by (simp add: floor_log_eq_powr_iff)
  then have e: "\<lfloor>log 2 \<bar>x\<bar>\<rfloor> - int p + 1 = int 0 - int k" using x p by simp
  have pw: "(2::real) powr (of_int (int 0 - int k)) = 1 / 2 ^ k"
    unfolding two_powr_diff by simp
  have "rne (x / (1 / 2 ^ k)) = m" using m by (intro rne_eqI) simp
  then show ?thesis using x unfolding round_to_def e Let_def pw by simp
qed

lemma round_to_sqrt_eqI:
  assumes x: "0 < x" and lo: "(2 ^ (p - 1))\<^sup>2 \<le> x * 4 ^ k" and hi: "x * 4 ^ k < (2 ^ p)\<^sup>2"
    and m1: "(of_int m - 1 / 2)\<^sup>2 < x * 4 ^ k" and m2: "x * 4 ^ k < (of_int m + 1 / 2)\<^sup>2"
    and mp: "(1::real) \<le> of_int m" and p: "0 < p"
  shows "round_to p (sqrt x) = of_int m / 2 ^ k"
proof -
  have s: "sqrt (x * 4 ^ k) = sqrt x * 2 ^ k"
    by (simp add: real_sqrt_mult real_sqrt_power)
  have "2 ^ (p - 1) \<le> sqrt (x * 4 ^ k)" using lo by (intro real_le_rsqrt) simp
  moreover have "sqrt (x * 4 ^ k) < 2 ^ p" using hi x by (intro real_less_lsqrt) simp_all
  moreover have "of_int m - 1 / 2 < sqrt (x * 4 ^ k)" using m1 by (intro real_less_rsqrt) simp
  moreover have "sqrt (x * 4 ^ k) < of_int m + 1 / 2" using m2 x mp by (intro real_less_lsqrt) simp_all
  ultimately have "2 ^ (p - 1) \<le> sqrt x * 2 ^ k" "sqrt x * 2 ^ k < 2 ^ p"
    "\<bar>sqrt x * 2 ^ k - of_int m\<bar> < 1 / 2"
    unfolding s by linarith+
  then show ?thesis
    using x p by (intro round_to_eqI) auto
qed

lemma round_beta2: "round_to 53 (8998192055486251 / 2 ^ 53) = 8998192055486251 / 2 ^ 53"
  using round_to_eqI[of "8998192055486251 / 2 ^ 53" 53 53 8998192055486251] by simp

lemma round_one_minus_beta2: "round_to 53 (1 - 8998192055486251 / 2 ^ 53) = 9007199254741 / 2 ^ 53"
  using round_to_eqI[of "9007199254741 / 2 ^ 53" 53 62 4611686018427392] by simp

lemma narrow_bias_correction2: "round_to 24 (9007199254741 / 2 ^ 53) = 8589935 / 2 ^ 33"
  using round_to_eqI[of "9007199254741 / 2 ^ 53" 24 33 8589935] by simp

lemma single_sqrt_value: "round_to 24 (sqrt (8589935 / 2 ^ 33)) = 8488675 / 2 ^ 28"
  using round_to_sqrt_eqI[of "8589935 / 2 ^ 33" 24 28 8488675] by (simp add: power2_eq_square)

lemma double_sqrt_value: "round_to 53 (sqrt (9007199254741 / 2 ^ 53)) = 4557322397432436 / 2 ^ 57"
  using round_to_sqrt_eqI[of "9007199254741 / 2 ^ 53" 53 57 4557322397432436] by (simp add: power2_eq_square)

lemma narrow_double_sqrt: "round_to 24 (4557322397432436 / 2 ^ 57) = 8488674 / 2 ^ 28"
  using round_to_eqI[of "4557322397432436 / 2 ^ 57" 24 28 8488674] by simp

lemma step_scalars_sqrt:
  "bias_correction2_sqrt (step_scalars D A hp gs) =
     fsqrt A (narrow D (dsub D (d_one D) (dpow D (hp_beta2 hp) (hp_step hp))))"
  by (simp add: step_scalars_def Let_def)

lemma default_bias_correction2:
  "dsub ieee_dbl (d_one ieee_dbl) (dpow ieee_dbl (hp_beta2 default_hp) (hp_step default_hp)) =
      9007199254741 / 2 ^ 53"
proof -
  have p1: "(8998192055486251 / 2 ^ 53 :: real) powr 1 = 8998192055486251 / 2 ^ 53" by simp
  show ?thesis
    unfolding ieee_dbl_def default_hp_def dbl_ops.select_convs hparams.select_convs p1
      round_beta2 round_one_minus_beta2 ..
qed

subsection \<open>Where the vectorised and the scalar loop agree\<close>

text \<open>
  When multiplying by \<open>-1.0\<close> is negation and \<open>maximum\<close> gives what \<open>std::max\<close> gives
  (as it does on numbers, and does not on NaN), the two loops compute the same update
  for float and double storage, and for the first half of each vector of Half or
  BFloat16 storage. For float and double storage the kernel's result then does not
  depend on how the runtime forms the shards.
\<close>

lemma wide_tail_agree_fp:
  assumes "\<And>y. fmul A y (minus_one A) = fneg A y" "\<And>x y. fmaximum A x y = std_max A x y"
  shows "wide_elem_fp A mode a c = tail_elem_fp A mode a c"
proof -
  have "fmaximum A = std_max A" using assms(2) by (intro ext)
  then show ?thesis
    by (simp add: wide_elem_fp_def tail_elem_fp_def wide_grad_def tail_grad_def assms(1) Let_def)
qed

lemma wide_tail_agree_lp_first_half:
  assumes "\<And>y. fmul A y (minus_one A) = fneg A y" "\<And>x y. fmaximum A x y = std_max A x y"
  shows "wide_elem_lp A mode a c c = tail_elem_lp A mode a c"
proof -
  have "fmaximum A = std_max A" using assms(2) by (intro ext)
  then show ?thesis
    by (simp add: wide_elem_lp_def tail_elem_lp_def wide_grad_def tail_grad_def assms(1) Let_def)
qed

lemma tail_step_fp_max:
  "\<not> amsgrad a \<Longrightarrow> max_exp_avg_sq (tail_step_fp A mode a p d M) = max_exp_avg_sq M"
  by (cases mode; cases "grad_scale_ptr a") (simp_all add: tail_step_fp_def Let_def)

lemma impl_fp_max_frame:
  fixes M :: "'o bufs"
  assumes "\<not> hp_amsgrad hp"
  shows "max_exp_avg_sq (adam_fused_step_impl_fp D A mode w shards hp gs M) = max_exp_avg_sq M"
  unfolding adam_fused_step_impl_fp_def
proof (rule parallel_for_inv[where Q = "\<lambda>M'. max_exp_avg_sq M' = max_exp_avg_sq M"])
  fix b e and M' :: "'o bufs"
  assume "max_exp_avg_sq M' = max_exp_avg_sq M"
  then show "max_exp_avg_sq (adam_math_fp A mode (step_scalars D A hp gs) w b (e - b) M') = max_exp_avg_sq M"
    using assms
    by (intro adam_math_fp_inv[where Q = "\<lambda>M'. max_exp_avg_sq M' = max_exp_avg_sq M"])
       (simp_all add: wide_step_fp_nf tail_step_fp_max)
qed simp

lemma bufs_eqI:
  fixes R1 R2 :: "'s bufs"
  assumes f: "fits ams N R1" "fits ams N R2"
    and c: "\<And>i. i < N \<Longrightarrow> cell R1 i = cell R2 i"
    and m: "\<not> ams \<Longrightarrow> max_exp_avg_sq R1 = max_exp_avg_sq R2"
  shows "R1 = R2"
proof -
  have e: "param R1 ! i = param R2 ! i" "exp_avg R1 ! i = exp_avg R2 ! i"
    "exp_avg_sq R1 ! i = exp_avg_sq R2 ! i" "grad R1 ! i = grad R2 ! i"
    "max_exp_avg_sq R1 ! i = max_exp_avg_sq R2 ! i" if "i < N" for i
    using arg_cong[OF c[OF that], of c_param] arg_cong[OF c[OF that], of c_exp_avg]
      arg_cong[OF c[OF that], of c_exp_avg_sq] arg_cong[OF c[OF that], of c_grad]
      arg_cong[OF c[OF that], of c_max] by simp_all
  have "param R1 = param R2" "exp_avg R1 = exp_avg R2" "exp_avg_sq R1 = exp_avg_sq R2"
    "grad R1 = grad R2"
    using f e by (auto simp: fits_def intro: nth_equalityI)
  moreover have "max_exp_avg_sq R1 = max_exp_avg_sq R2"
  proof (cases ams)
    case True
    then show ?thesis using f e by (auto simp: fits_def intro: nth_equalityI)
  qed (rule m)
  ultimately show ?thesis by simp
qed

lemma shard_invariance_fp:
  fixes M :: "'o bufs" and A :: "('s, 'o) fp_ops"
  assumes mul: "\<And>y. fmul A y (minus_one A) = fneg A y"
    and mx: "\<And>x y. fmaximum A x y = std_max A x y"
    and p: "is_partition 0 N shards" "is_partition 0 N shards'"
    and f: "fits (hp_amsgrad hp) N M"
  shows "adam_fused_step_impl_fp D A mode w shards hp gs M =
         adam_fused_step_impl_fp D A mode w shards' hp gs M"
proof (rule bufs_eqI[where N = N and ams = "hp_amsgrad hp"])
  show "fits (hp_amsgrad hp) N (adam_fused_step_impl_fp D A mode w shards hp gs M)"
    "fits (hp_amsgrad hp) N (adam_fused_step_impl_fp D A mode w shards' hp gs M)"
    using impl_fp_cells[OF f p(1)] impl_fp_cells[OF f p(2)] by blast+
next
  fix i assume i: "i < N"
  have "cell (adam_fused_step_impl_fp D A mode w s hp gs M) i =
      tail_elem_fp A mode (step_scalars D A hp gs) (cell M i)" if "is_partition 0 N s" for s
    using impl_fp_cell_covered[OF f that i, of D A mode w gs]
    by (auto simp: math_cell_fp_def wide_tail_agree_fp[OF mul mx])
  from this[OF p(1)] this[OF p(2)]
  show "cell (adam_fused_step_impl_fp D A mode w shards hp gs M) i =
        cell (adam_fused_step_impl_fp D A mode w shards' hp gs M) i" by simp
next
  assume "\<not> hp_amsgrad hp"
  then show "max_exp_avg_sq (adam_fused_step_impl_fp D A mode w shards hp gs M) =
      max_exp_avg_sq (adam_fused_step_impl_fp D A mode w shards' hp gs M)"
    by (simp add: impl_fp_max_frame)
qed

section \<open>The claims\<close>

text \<open>
  C1. The claim: on the narrow path the vectorised loop and the scalar loop write the
  same values for the same inputs. The code does not do so: line 75 computes the second
  half of the first moment from \<open>grad_vec1\<close>, the gradients of the first half. On one
  vector of sixteen elements (gradient \<open>0\<close> in the first half, \<open>2\<close> in the second) the
  vectorised loop writes \<open>exp_avg[8] = 0\<close> and \<open>param[8] = 1\<close>, where the scalar loop
  writes \<open>exp_avg[8] = 1\<close> and \<open>param[8] = 3/4\<close>.
\<close>

theorem wide_pass_differs_from_tail_pass:
  "exp_avg (snd (vec_loop 16 16 (wide_step_lp exact_ops ORIGINAL lane_args 8 0) 0 lane_bufs)) ! 8 = 0 \<and>
   exp_avg (scalar_loop 16 (tail_step_lp exact_ops ORIGINAL lane_args 0) 0 lane_bufs) ! 8 = 1 \<and>
   param (snd (vec_loop 16 16 (wide_step_lp exact_ops ORIGINAL lane_args 8 0) 0 lane_bufs)) ! 8 = 1 \<and>
   param (scalar_loop 16 (tail_step_lp exact_ops ORIGINAL lane_args 0) 0 lane_bufs) ! 8 = 3 / 4"
proof -
  have f: "fits (amsgrad lane_args) 16 lane_bufs" by (simp add: lane_facts)
  have w: "cell (snd (vec_loop (2 * 8) 16 (wide_step_lp exact_ops ORIGINAL lane_args 8 0) 0 lane_bufs)) 8 =
      wide_elem_lp exact_ops ORIGINAL lane_args (cell lane_bufs 8) (cell lane_bufs 0)"
    using wide_pass_lp_cells[OF f, where p = 0 and sz = 16 and i = 8 and A = exact_ops and mode = ORIGINAL and h = 8]
    by (simp add: prt_lp_def)
  have t: "cell (scalar_loop 16 (tail_step_lp exact_ops ORIGINAL lane_args 0) 0 lane_bufs) 8 =
      tail_elem_lp exact_ops ORIGINAL lane_args (cell lane_bufs 8)"
    using tail_pass_lp_cells[OF f, where p = 0 and sz = 16 and i = 8 and A = exact_ops and mode = ORIGINAL and d = 0]
    by simp
  have we: "wide_elem_lp exact_ops ORIGINAL lane_args (cell lane_bufs 8) (cell lane_bufs 0) =
      \<lparr>c_param = 1, c_exp_avg = 0, c_exp_avg_sq = 1, c_grad = 2, c_max = [] ! 8\<rparr>"
    by (simp add: lane_facts(3,4) wide_elem_lp_def elem_def wide_grad_def unscaled_def exact_ops_def
        lane_args_def Let_def)
  have te: "tail_elem_lp exact_ops ORIGINAL lane_args (cell lane_bufs 8) =
      \<lparr>c_param = 3 / 4, c_exp_avg = 1, c_exp_avg_sq = 1, c_grad = 2, c_max = [] ! 8\<rparr>"
    by (simp add: lane_facts(3,4) tail_elem_lp_def elem_def tail_grad_def unscaled_def exact_ops_def
        lane_args_def Let_def)
  show ?thesis
    using arg_cong[OF w, of c_exp_avg] arg_cong[OF t, of c_exp_avg]
      arg_cong[OF w, of c_param] arg_cong[OF t, of c_param]
    by (simp add: we te)
qed

text \<open>
  C2. The claim: the entry point computes on a contiguous gradient buffer (a contiguous
  copy when the caller's \<open>grad\<close> is not contiguous), and the unscaled gradients are
  visible through the caller's \<open>grad\<close>. The code makes the copy and does not use it. With
  the strided gradient whose elements are \<open>4\<close> and \<open>28\<close> and the scale \<open>2\<close>, the
  math layer reads and overwrites the first two cells of the caller's storage, \<open>4\<close> and
  \<open>12\<close>: the storage becomes \<open>[2, 6, 28]\<close>, the first moments are \<open>1\<close> and \<open>3\<close>
  (those of the gradients \<open>2\<close> and \<open>6\<close>, not \<open>2\<close> and \<open>14\<close>), and the caller's tensor
  reads \<open>[2, 28]\<close>, its second element not unscaled.
\<close>

theorem contiguous_copy_unused:
  "(let R = fused_adam_kernel_fp exact_dbl exact_ops 8 [(0, 2)] ones2 strided_grad zeros2 zeros2 zeros2
              (sample_hp 0 False False) (Some 2) ORIGINAL
    in elements (contiguous strided_grad) = [4, 28] \<and>
       grad R = [2, 6, 28] \<and>
       exp_avg R = [1, 3] \<and>
       elements (strided_grad\<lparr>t_data := grad R\<rparr>) = [2, 28])"
proof -
  let ?a = "step_scalars exact_dbl exact_ops (sample_hp 0 False False) (Some 2)"
  let ?M = "\<lparr>param = t_data ones2, exp_avg = t_data zeros2, exp_avg_sq = t_data zeros2,
              grad = t_data strided_grad, max_exp_avg_sq = t_data zeros2\<rparr>"
  have a: "grad_scale_ptr ?a = Some 2" "\<not> maximize ?a" "\<not> nonzero exact_ops (weight_decay ?a)"
    "exp_avg_grad_coefficient ?a = 1 / 2"
    by (simp_all add: step_scalars_def sample_hp_def exact_ops_def exact_dbl_def Let_def)
  note s = tail_step_fp_grad_exp_avg[OF a(1,2,3)]
  have R: "fused_adam_kernel_fp exact_dbl exact_ops 8 [(0, 2)] ones2 strided_grad zeros2 zeros2 zeros2
              (sample_hp 0 False False) (Some 2) ORIGINAL =
      tail_step_fp exact_ops ORIGINAL ?a 0 1 (tail_step_fp exact_ops ORIGINAL ?a 0 0 ?M)"
    by (simp add: fused_adam_kernel_fp_def adam_fused_step_impl_fp_def loops_two_tail Let_def)
  have g: "grad (tail_step_fp exact_ops ORIGINAL ?a 0 1 (tail_step_fp exact_ops ORIGINAL ?a 0 0 ?M)) = [2, 6, 28]"
    by (simp add: s strided_grad_def) (simp add: exact_ops_def)
  have m: "exp_avg (tail_step_fp exact_ops ORIGINAL ?a 0 1 (tail_step_fp exact_ops ORIGINAL ?a 0 0 ?M)) = [1, 3]"
    by (simp add: s a(4) strided_grad_def zeros2_def) (simp add: exact_ops_def)
  have e: "elements (contiguous strided_grad) = [4, 28]"
    by (simp add: contiguous_def is_contiguous_def elements_def strided_grad_def upt_0_2)
  have v: "elements (strided_grad\<lparr>t_data := [2, 6, 28]\<rparr>) = [2, 28]"
    by (simp add: elements_def strided_grad_def upt_0_2)
  show ?thesis
    unfolding Let_def R g m using e v by simp
qed

text \<open>
  C3. The claim: the result does not depend on the shard boundaries. For Half and
  BFloat16 storage it does, through the same line 75: with the single shard \<open>[0, 16)\<close>
  element \<open>8\<close> is in the second half of a vector and gets \<open>exp_avg[8] = 0\<close>; with the
  shards \<open>[0, 8)\<close> and \<open>[8, 16)\<close> every element goes through the scalar loop and
  \<open>exp_avg[8] = 1\<close>. (For float and double storage the result is independent of the
  shards as long as \<open>maximum\<close> and \<open>std::max\<close> agree: \<open>shard_invariance_fp\<close>.)
\<close>

theorem shard_boundaries_change_result:
  "exp_avg (adam_fused_step_impl_lp exact_dbl exact_ops ORIGINAL 8 [(0, 16)]
       (sample_hp 0 False False) None lane_bufs) ! 8 = 0 \<and>
   exp_avg (adam_fused_step_impl_lp exact_dbl exact_ops ORIGINAL 8 [(0, 8), (8, 16)]
       (sample_hp 0 False False) None lane_bufs) ! 8 = 1"
proof -
  have f: "fits (hp_amsgrad (sample_hp 0 False False)) 16 lane_bufs"
    by (simp add: lane_facts sample_hp_def)
  have p1: "is_partition 0 16 [(0, 16)]" and p2: "is_partition 0 16 [(0, 8), (8, 16)]" by simp_all
  have c1: "cell (adam_fused_step_impl_lp exact_dbl exact_ops ORIGINAL 8 [(0, 16)]
       (sample_hp 0 False False) None lane_bufs) 8 =
      wide_elem_lp exact_ops ORIGINAL lane_args (cell lane_bufs 8) (cell lane_bufs 0)"
    using impl_lp_cells[OF f p1, where D = exact_dbl and A = exact_ops and mode = ORIGINAL and h = 8 and gs = None]
    by (simp add: shard_of_def math_cell_lp_def prt_lp_def sample_scalars)
  have c2: "cell (adam_fused_step_impl_lp exact_dbl exact_ops ORIGINAL 8 [(0, 8), (8, 16)]
       (sample_hp 0 False False) None lane_bufs) 8 =
      tail_elem_lp exact_ops ORIGINAL lane_args (cell lane_bufs 8)"
    using impl_lp_cells[OF f p2, where D = exact_dbl and A = exact_ops and mode = ORIGINAL and h = 8 and gs = None]
    by (simp add: shard_of_def math_cell_lp_def prt_lp_def sample_scalars)
  have we: "c_exp_avg (wide_elem_lp exact_ops ORIGINAL lane_args (cell lane_bufs 8) (cell lane_bufs 0)) = 0"
    by (simp add: lane_facts(3,4) wide_elem_lp_def elem_def wide_grad_def unscaled_def exact_ops_def
        lane_args_def Let_def)
  have te: "c_exp_avg (tail_elem_lp exact_ops ORIGINAL lane_args (cell lane_bufs 8)) = 1"
    by (simp add: lane_facts(3,4) tail_elem_lp_def elem_def tail_grad_def unscaled_def exact_ops_def
        lane_args_def Let_def)
  show ?thesis
    using arg_cong[OF c1, of c_exp_avg] arg_cong[OF c2, of c_exp_avg] by (simp add: we te)
qed

text \<open>
  C4. Unscale write-back. With a non-null \<open>grad_scale_ptr\<close> pointing to \<open>s\<close>, after the
  call every element \<open>d\<close> of \<open>grad\<close> is the input element divided by \<open>s\<close> in
  \<open>opmath_t\<close> and converted to the storage type, whatever the \<open>maximize\<close> flag \<open>mx\<close>
  is: the value stored is the unscaled, not the negated one. This holds for every
  partition into shards, in both specialisations (for float and double storage there is
  no conversion).
\<close>

theorem unscale_write_back:
  fixes M :: "'s bufs" and A :: "('s, 'o) fp_ops"
    and M2 :: "'o bufs" and A2 :: "('t, 'o) fp_ops"
  assumes "is_partition 0 N shards" "d < N"
    and "fits (hp_amsgrad hp) N M" "fits (hp_amsgrad hp2) N M2"
  shows "grad (adam_fused_step_impl_lp D A mode h shards (hp\<lparr>hp_maximize := mx\<rparr>) (Some s) M) ! d
           = to_scalar A (fdiv A (to_opmath A (grad M ! d)) s) \<and>
         grad (adam_fused_step_impl_fp D A2 mode w shards (hp2\<lparr>hp_maximize := mx\<rparr>) (Some s) M2) ! d
           = fdiv A2 (grad M2 ! d) s"
  using assms
  by (simp add: impl_lp_grad_nth[where N = N] impl_fp_grad_nth[where N = N])

theorem unscale_write_back_witness:
  "is_partition 0 2 [(0, 1), (1, 2)] \<and> (1::nat) < 2 \<and> fits False 2 two_bufs \<and>
   grad (adam_fused_step_impl_lp exact_dbl exact_ops ORIGINAL 8 [(0, 1), (1, 2)]
          ((sample_hp 0 False False)\<lparr>hp_maximize := True\<rparr>) (Some 2) two_bufs) ! 1 = 2"
proof -
  have f: "fits (hp_amsgrad (sample_hp 0 False False)) 2 two_bufs"
    by (simp add: sample_facts)
  have d: "(1::nat) < 2" by simp
  from unscale_write_back[OF sample_facts(1) d f f,
      where D = exact_dbl and A = exact_ops and mode = ORIGINAL and h = 8 and mx = True and s = 2
        and ?A2.0 = exact_ops and w = 8]
  have "grad (adam_fused_step_impl_lp exact_dbl exact_ops ORIGINAL 8 [(0, 1), (1, 2)]
          ((sample_hp 0 False False)\<lparr>hp_maximize := True\<rparr>) (Some 2) two_bufs) ! 1 = 2"
    by (simp add: exact_ops_def two_bufs_def)
  then show ?thesis using sample_facts(1,2) d by (intro conjI)
qed

text \<open>
  C5. The claim: with \<open>amsgrad\<close> set, after the call every element of
  \<open>max_exp_avg_sq\<close> is at least its value before the call and at least the new
  \<open>exp_avg_sq\<close> of the same index. It fails on a gradient that is NaN, which the kernel
  passes on. Take four doubles, the first gradient NaN and the running maximum \<open>1\<close>.
  When the four form one shard, the vectorised loop stores \<open>maximum(1, NaN) = NaN\<close>,
  which is not at least the \<open>1\<close> stored before. When they form two shards of two, the
  scalar loop stores \<open>std::max(1, NaN) = 1\<close> next to the second moment NaN, and \<open>1\<close> is
  not at least NaN.
\<close>

theorem nan_gradient_breaks_monotonicity:
  "max_exp_avg_sq nan_bufs ! 0 = Some 1 \<and>
   max_exp_avg_sq (adam_fused_step_impl_fp nan_dbl nan_ops ORIGINAL 4 [(0, 4)]
       (sample_hp 0 True False) None nan_bufs) ! 0 = None \<and>
   \<not> nan_le (max_exp_avg_sq nan_bufs ! 0)
       (max_exp_avg_sq (adam_fused_step_impl_fp nan_dbl nan_ops ORIGINAL 4 [(0, 4)]
          (sample_hp 0 True False) None nan_bufs) ! 0) \<and>
   max_exp_avg_sq (adam_fused_step_impl_fp nan_dbl nan_ops ORIGINAL 4 [(0, 2), (2, 4)]
       (sample_hp 0 True False) None nan_bufs) ! 0 = Some 1 \<and>
   exp_avg_sq (adam_fused_step_impl_fp nan_dbl nan_ops ORIGINAL 4 [(0, 2), (2, 4)]
       (sample_hp 0 True False) None nan_bufs) ! 0 = None \<and>
   \<not> nan_le
       (exp_avg_sq (adam_fused_step_impl_fp nan_dbl nan_ops ORIGINAL 4 [(0, 2), (2, 4)]
          (sample_hp 0 True False) None nan_bufs) ! 0)
       (max_exp_avg_sq (adam_fused_step_impl_fp nan_dbl nan_ops ORIGINAL 4 [(0, 2), (2, 4)]
          (sample_hp 0 True False) None nan_bufs) ! 0)"
proof -
  let ?a = "step_scalars nan_dbl nan_ops (sample_hp 0 True False) None"
  have f: "fits (hp_amsgrad (sample_hp 0 True False)) 4 nan_bufs"
    by (simp add: nan_facts sample_facts)
  have c1: "cell (adam_fused_step_impl_fp nan_dbl nan_ops ORIGINAL 4 [(0, 4)]
       (sample_hp 0 True False) None nan_bufs) 0 = wide_elem_fp nan_ops ORIGINAL ?a (cell nan_bufs 0)"
    using impl_fp_cells[OF f nan_facts(2), where D = nan_dbl and A = nan_ops and mode = ORIGINAL
        and w = 4 and gs = None]
    by (simp add: shard_of_def math_cell_fp_def)
  have c2: "cell (adam_fused_step_impl_fp nan_dbl nan_ops ORIGINAL 4 [(0, 2), (2, 4)]
       (sample_hp 0 True False) None nan_bufs) 0 = tail_elem_fp nan_ops ORIGINAL ?a (cell nan_bufs 0)"
    using impl_fp_cells[OF f nan_facts(3), where D = nan_dbl and A = nan_ops and mode = ORIGINAL
        and w = 4 and gs = None]
    by (simp add: shard_of_def math_cell_fp_def)
  have m: "max_exp_avg_sq nan_bufs ! 0 = Some 1" by (simp add: nan_bufs_def)
  show ?thesis
    using arg_cong[OF c1, of c_max] arg_cong[OF c2, of c_max] arg_cong[OF c2, of c_exp_avg_sq]
    by (simp add: nan_wide_cells nan_tail_cells m nan_le_def)
qed

text \<open>
  C5, amended. AMSGrad monotonicity away from NaN. With \<open>amsgrad\<close> set, at every index
  \<open>d\<close> where neither \<open>max_exp_avg_sq\<close> before the call nor \<open>exp_avg_sq\<close> after the call
  is NaN, \<open>max_exp_avg_sq\<close> after the call is at least its value before the call and at
  least \<open>exp_avg_sq\<close> after the call, for every partition into shards, in both
  specialisations. Stored values are compared as the arithmetic type compares them.
  \<open>nan\<close> and \<open>le\<close> are the test for NaN and the comparison \<open>\<le>\<close> of the arithmetic type;
  what is assumed of them holds of IEEE arithmetic: a number is at most itself, \<open>a < b\<close>
  implies \<open>a \<le> b\<close>, of two numbers not \<open>a < b\<close> implies \<open>b \<le> a\<close>, \<open>maximum\<close> of two
  numbers is at least both, and for Half and BFloat16 storage the conversion to the
  storage type is monotone, keeps a stored value and keeps NaN.
\<close>

theorem amsgrad_monotone:
  fixes M :: "'s bufs" and A :: "('s, 'o) fp_ops"
    and M2 :: "'o bufs" and A2 :: "('t, 'o) fp_ops"
    and nan :: "'o \<Rightarrow> bool" and le :: "'o \<Rightarrow> 'o \<Rightarrow> bool"
  assumes ams: "hp_amsgrad hp" "hp_amsgrad hp2"
    and part: "is_partition 0 N shards" and d: "d < N"
    and fits: "fits True N M" "fits True N M2"
    and refl: "\<And>x. \<not> nan x \<Longrightarrow> le x x"
    and less: "\<And>x y. fless A x y \<Longrightarrow> le x y" "\<And>x y. fless A2 x y \<Longrightarrow> le x y"
    and total: "\<And>x y. \<not> nan x \<Longrightarrow> \<not> nan y \<Longrightarrow> \<not> fless A x y \<Longrightarrow> le y x"
       "\<And>x y. \<not> nan x \<Longrightarrow> \<not> nan y \<Longrightarrow> \<not> fless A2 x y \<Longrightarrow> le y x"
    and vmax: "\<And>x y. \<not> nan x \<Longrightarrow> \<not> nan y \<Longrightarrow> le x (fmaximum A x y) \<and> le y (fmaximum A x y)"
       "\<And>x y. \<not> nan x \<Longrightarrow> \<not> nan y \<Longrightarrow> le x (fmaximum A2 x y) \<and> le y (fmaximum A2 x y)"
    and mono: "\<And>x y. le x y \<Longrightarrow> le (to_opmath A (to_scalar A x)) (to_opmath A (to_scalar A y))"
    and rt: "\<And>x. to_opmath A (to_scalar A (to_opmath A x)) = to_opmath A x"
    and keep: "\<And>x. nan x \<Longrightarrow> nan (to_opmath A (to_scalar A x))"
  shows "(let M' = adam_fused_step_impl_lp D A mode h shards hp gs M
          in \<not> nan (to_opmath A (max_exp_avg_sq M ! d)) \<and> \<not> nan (to_opmath A (exp_avg_sq M' ! d)) \<longrightarrow>
             le (to_opmath A (max_exp_avg_sq M ! d)) (to_opmath A (max_exp_avg_sq M' ! d)) \<and>
             le (to_opmath A (exp_avg_sq M' ! d)) (to_opmath A (max_exp_avg_sq M' ! d))) \<and>
         (let M2' = adam_fused_step_impl_fp D A2 mode w shards hp2 gs M2
          in \<not> nan (max_exp_avg_sq M2 ! d) \<and> \<not> nan (exp_avg_sq M2' ! d) \<longrightarrow>
             le (max_exp_avg_sq M2 ! d) (max_exp_avg_sq M2' ! d) \<and>
             le (exp_avg_sq M2' ! d) (max_exp_avg_sq M2' ! d))"
proof -
  define M' where "M' = adam_fused_step_impl_lp D A mode h shards hp gs M"
  define M2' where "M2' = adam_fused_step_impl_fp D A2 mode w shards hp2 gs M2"
  have f1: "fits (hp_amsgrad hp) N M" and f2: "fits (hp_amsgrad hp2) N M2"
    using fits ams by simp_all
  have a1: "amsgrad (step_scalars D A hp gs)" and a2: "amsgrad (step_scalars D A2 hp2 gs)"
    using ams by simp_all
  obtain b e where c: "cell M' d = math_cell_lp A mode (step_scalars D A hp gs) h b (e - b) (cell M) d"
    using impl_lp_cell_covered[OF f1 part d, of D A mode h gs] unfolding M'_def by blast
  have 1: "le (to_opmath A (max_exp_avg_sq M ! d)) (to_opmath A (max_exp_avg_sq M' ! d)) \<and>
           le (to_opmath A (exp_avg_sq M' ! d)) (to_opmath A (max_exp_avg_sq M' ! d))"
    if n: "\<not> nan (to_opmath A (max_exp_avg_sq M ! d))" "\<not> nan (to_opmath A (exp_avg_sq M' ! d))"
  proof -
    have n': "\<not> nan (to_opmath A (c_max (cell M d)))"
      "\<not> nan (to_opmath A (c_exp_avg_sq (math_cell_lp A mode (step_scalars D A hp gs) h b (e - b) (cell M) d)))"
      using n arg_cong[OF c, of c_exp_avg_sq] by simp_all
    from math_cell_lp_monotone[where nan = nan and le = le, OF a1 refl less(1) total(1) vmax(1) mono rt keep n']
    show ?thesis
      using arg_cong[OF c, of c_exp_avg_sq] arg_cong[OF c, of c_max] by simp
  qed
  obtain b2 e2 where c2: "cell M2' d = math_cell_fp A2 mode (step_scalars D A2 hp2 gs) w b2 (e2 - b2) (cell M2) d"
    using impl_fp_cell_covered[OF f2 part d, of D A2 mode w gs] unfolding M2'_def by blast
  have 2: "le (max_exp_avg_sq M2 ! d) (max_exp_avg_sq M2' ! d) \<and>
           le (exp_avg_sq M2' ! d) (max_exp_avg_sq M2' ! d)"
    if n: "\<not> nan (max_exp_avg_sq M2 ! d)" "\<not> nan (exp_avg_sq M2' ! d)"
  proof -
    have n': "\<not> nan (c_max (cell M2 d))"
      "\<not> nan (c_exp_avg_sq (math_cell_fp A2 mode (step_scalars D A2 hp2 gs) w b2 (e2 - b2) (cell M2) d))"
      using n arg_cong[OF c2, of c_exp_avg_sq] by simp_all
    from math_cell_fp_monotone[where nan = nan and le = le, OF a2 refl less(2) total(2) vmax(2) n']
    show ?thesis
      using arg_cong[OF c2, of c_exp_avg_sq] arg_cong[OF c2, of c_max] by simp
  qed
  show ?thesis
    using 1 2 unfolding M'_def M2'_def Let_def by blast
qed

theorem amsgrad_monotone_witness:
  "is_partition 0 4 [(0, 4)] \<and> (1::nat) < 4 \<and> fits True 4 nan_bufs \<and>
   max_exp_avg_sq nan_bufs ! 1 \<noteq> None \<and>
   exp_avg_sq (adam_fused_step_impl_fp nan_dbl nan_ops ORIGINAL 4 [(0, 4)]
      (sample_hp 0 True False) None nan_bufs) ! 1 \<noteq> None \<and>
   nan_le (max_exp_avg_sq nan_bufs ! 1)
      (max_exp_avg_sq (adam_fused_step_impl_fp nan_dbl nan_ops ORIGINAL 4 [(0, 4)]
         (sample_hp 0 True False) None nan_bufs) ! 1) \<and>
   nan_le
      (exp_avg_sq (adam_fused_step_impl_fp nan_dbl nan_ops ORIGINAL 4 [(0, 4)]
         (sample_hp 0 True False) None nan_bufs) ! 1)
      (max_exp_avg_sq (adam_fused_step_impl_fp nan_dbl nan_ops ORIGINAL 4 [(0, 4)]
         (sample_hp 0 True False) None nan_bufs) ! 1)"
proof -
  let ?a = "step_scalars nan_dbl nan_ops (sample_hp 0 True False) None"
  let ?R = "adam_fused_step_impl_fp nan_dbl nan_ops ORIGINAL 4 [(0, 4)] (sample_hp 0 True False) None nan_bufs"
  have a: "hp_amsgrad (sample_hp 0 True False)" by (simp add: sample_facts)
  have f: "fits (hp_amsgrad (sample_hp 0 True False)) 4 nan_bufs"
    by (simp add: nan_facts sample_facts)
  have d: "(1::nat) < 4" by simp
  have c: "cell ?R 1 = wide_elem_fp nan_ops ORIGINAL ?a (cell nan_bufs 1)"
    using impl_fp_cells[OF f nan_facts(2), where D = nan_dbl and A = nan_ops and mode = ORIGINAL
        and w = 4 and gs = None]
    by (simp add: shard_of_def math_cell_fp_def)
  from arg_cong[OF c, of c_exp_avg_sq] nan_wide_cells(2) have post: "exp_avg_sq ?R ! 1 \<noteq> None"
    by simp
  have pre: "max_exp_avg_sq nan_bufs ! 1 \<noteq> None" by (simp add: nan_bufs_def)
  have refl: "nan_le x x" if "\<not> x = None" for x
    using that by (auto simp: nan_le_def)
  have less: "nan_le x y" if "fless nan_ops x y" for x y
    using that by (auto simp: nan_ops_def nan_less_def nan_le_def split: option.splits)
  have total: "nan_le y x" if "\<not> x = None" "\<not> y = None" "\<not> fless nan_ops x y" for x y
    using that by (auto simp: nan_ops_def nan_less_def nan_le_def split: option.splits)
  have vmax: "nan_le x (fmaximum nan_ops x y) \<and> nan_le y (fmaximum nan_ops x y)"
    if "\<not> x = None" "\<not> y = None" for x y
    using that by (auto simp: nan_ops_def nan_lift_def nan_le_def split: option.splits)
  have mono: "nan_le (to_opmath nan_ops (to_scalar nan_ops x)) (to_opmath nan_ops (to_scalar nan_ops y))"
    if "nan_le x y" for x y
    using that by (simp add: nan_ops_def)
  have rt: "to_opmath nan_ops (to_scalar nan_ops (to_opmath nan_ops x)) = to_opmath nan_ops x" for x
    by (simp add: nan_ops_def)
  have keep: "to_opmath nan_ops (to_scalar nan_ops x) = None" if "x = None" for x
    using that by (simp add: nan_ops_def)
  from amsgrad_monotone[where nan = "\<lambda>x. x = None" and le = nan_le and A = nan_ops and ?A2.0 = nan_ops,
      OF a a nan_facts(2) d nan_facts(1) nan_facts(1) refl less less total total vmax vmax mono rt keep,
      where D = nan_dbl and mode = ORIGINAL and h = 2 and gs = None and w = 4]
  have "nan_le (max_exp_avg_sq nan_bufs ! 1) (max_exp_avg_sq ?R ! 1) \<and>
        nan_le (exp_avg_sq ?R ! 1) (max_exp_avg_sq ?R ! 1)"
    using pre post unfolding Let_def by blast
  then show ?thesis using nan_facts(1,2) d pre post by blast
qed

text \<open>
  C6. Zero-decay identity. When the weight decay passed to the kernel compares equal to
  zero (the test \<open>weight_decay != 0.f\<close> is false), the kernel returns the same five
  buffers as the variant without the weight-decay branch, for every input, mode, flag
  and partition, in both specialisations: the decay arithmetic is not performed.
\<close>

theorem zero_decay_identity:
  fixes M :: "'s bufs" and A :: "('s, 'o) fp_ops"
    and M2 :: "'o bufs" and A2 :: "('t, 'o) fp_ops"
  assumes "\<not> nonzero A (narrow D (hp_weight_decay hp))"
    and "\<not> nonzero A2 (narrow D (hp_weight_decay hp2))"
  shows "adam_fused_step_impl_lp D A mode h shards hp gs M =
           adam_fused_step_impl_lp_nodecay D A mode h shards hp gs M \<and>
         adam_fused_step_impl_fp D A2 mode w shards hp2 gs M2 =
           adam_fused_step_impl_fp_nodecay D A2 mode w shards hp2 gs M2"
proof -
  have 1: "(\<lambda>b e. adam_math_lp A mode (step_scalars D A hp gs) h b (e - b)) =
        (\<lambda>b e. adam_math_lp_nodecay A mode (step_scalars D A hp gs) h b (e - b))"
    using assms(1) by (intro ext) (simp add: adam_math_lp_nodecay_eq)
  have 2: "(\<lambda>b e. adam_math_fp A2 mode (step_scalars D A2 hp2 gs) w b (e - b)) =
        (\<lambda>b e. adam_math_fp_nodecay A2 mode (step_scalars D A2 hp2 gs) w b (e - b))"
    using assms(2) by (intro ext) (simp add: adam_math_fp_nodecay_eq)
  show ?thesis
    unfolding adam_fused_step_impl_lp_def adam_fused_step_impl_lp_nodecay_def
      adam_fused_step_impl_fp_def adam_fused_step_impl_fp_nodecay_def 1 2 by simp
qed

theorem zero_decay_identity_witness:
  "adam_fused_step_impl_lp exact_dbl exact_ops ORIGINAL 8 [(0, 1), (1, 2)] (sample_hp 0 True True) (Some 2) two_bufs =
     adam_fused_step_impl_lp_nodecay exact_dbl exact_ops ORIGINAL 8 [(0, 1), (1, 2)] (sample_hp 0 True True) (Some 2) two_bufs \<and>
   adam_fused_step_impl_fp exact_dbl exact_ops ADAMW 8 [(0, 1), (1, 2)] (sample_hp 0 True True) (Some 2) two_bufs =
     adam_fused_step_impl_fp_nodecay exact_dbl exact_ops ADAMW 8 [(0, 1), (1, 2)] (sample_hp 0 True True) (Some 2) two_bufs"
proof -
  have z: "\<not> nonzero exact_ops (narrow exact_dbl (hp_weight_decay (sample_hp 0 True True)))"
    by (simp add: exact_ops_def exact_dbl_def sample_hp_def)
  show ?thesis
    using zero_decay_identity[OF z z, where mode = ORIGINAL and h = 8 and shards = "[(0, 1), (1, 2)]"
        and gs = "Some 2" and M = two_bufs]
      zero_decay_identity[OF z z, where mode = ADAMW and w = 8 and shards = "[(0, 1), (1, 2)]"
        and gs = "Some 2" and ?M2.0 = two_bufs]
    by blast
qed

text \<open>
  C7. Maximize symmetry. Without gradient scaling, running with \<open>maximize = true\<close> on
  the gradient \<open>g\<close> and running with \<open>maximize = false\<close> on the negated gradient buffer
  leave the same \<open>param\<close>, \<open>exp_avg\<close> and \<open>exp_avg_sq\<close> (the first moments are
  equal, in particular equal up to sign). The arithmetic facts used are that the
  negation of a stored value is representable in the storage type, and that multiplying
  by \<open>-1.0\<close>, as the vectorised loop does, is negation, as the scalar loop does.
\<close>

theorem maximize_symmetry:
  fixes M :: "'s bufs" and A :: "('s, 'o) fp_ops"
    and M2 :: "'o bufs" and A2 :: "('t, 'o) fp_ops"
  assumes part: "is_partition 0 N shards"
    and fits: "fits (hp_amsgrad hp) N M" "fits (hp_amsgrad hp2) N M2"
    and neg_exact: "\<And>x. to_opmath A (to_scalar A (fneg A (to_opmath A x))) = fneg A (to_opmath A x)"
    and mul_m1: "\<And>y. fmul A y (minus_one A) = fneg A y" "\<And>y. fmul A2 y (minus_one A2) = fneg A2 y"
  shows "(let R1 = adam_fused_step_impl_lp D A mode h shards (hp\<lparr>hp_maximize := True\<rparr>) None M;
              R2 = adam_fused_step_impl_lp D A mode h shards (hp\<lparr>hp_maximize := False\<rparr>) None
                     (M\<lparr>grad := map (\<lambda>g. to_scalar A (fneg A (to_opmath A g))) (grad M)\<rparr>)
          in param R1 = param R2 \<and> exp_avg R1 = exp_avg R2 \<and> exp_avg_sq R1 = exp_avg_sq R2) \<and>
         (let R1 = adam_fused_step_impl_fp D A2 mode w shards (hp2\<lparr>hp_maximize := True\<rparr>) None M2;
              R2 = adam_fused_step_impl_fp D A2 mode w shards (hp2\<lparr>hp_maximize := False\<rparr>) None
                     (M2\<lparr>grad := map (fneg A2) (grad M2)\<rparr>)
          in param R1 = param R2 \<and> exp_avg R1 = exp_avg R2 \<and> exp_avg_sq R1 = exp_avg_sq R2)"
proof -
  let ?ng = "\<lambda>g. to_scalar A (fneg A (to_opmath A g))"
  have a: "fits (hp_amsgrad (hp\<lparr>hp_maximize := True\<rparr>)) N M"
    "fits (hp_amsgrad (hp\<lparr>hp_maximize := False\<rparr>)) N (M\<lparr>grad := map ?ng (grad M)\<rparr>)"
    "fits (hp_amsgrad (hp2\<lparr>hp_maximize := True\<rparr>)) N M2"
    "fits (hp_amsgrad (hp2\<lparr>hp_maximize := False\<rparr>)) N (M2\<lparr>grad := map (fneg A2) (grad M2)\<rparr>)"
    using fits by (simp_all add: fits_neg_grad)
  note r = impl_lp_cells[OF a(1) part, THEN conjunct1] impl_lp_cells[OF a(2) part, THEN conjunct1]
  note r2 = impl_fp_cells[OF a(3) part, THEN conjunct1] impl_fp_cells[OF a(4) part, THEN conjunct1]
  have 1: "param (adam_fused_step_impl_lp D A mode h shards (hp\<lparr>hp_maximize := True\<rparr>) None M) =
      param (adam_fused_step_impl_lp D A mode h shards (hp\<lparr>hp_maximize := False\<rparr>) None (M\<lparr>grad := map ?ng (grad M)\<rparr>)) \<and>
    exp_avg (adam_fused_step_impl_lp D A mode h shards (hp\<lparr>hp_maximize := True\<rparr>) None M) =
      exp_avg (adam_fused_step_impl_lp D A mode h shards (hp\<lparr>hp_maximize := False\<rparr>) None (M\<lparr>grad := map ?ng (grad M)\<rparr>)) \<and>
    exp_avg_sq (adam_fused_step_impl_lp D A mode h shards (hp\<lparr>hp_maximize := True\<rparr>) None M) =
      exp_avg_sq (adam_fused_step_impl_lp D A mode h shards (hp\<lparr>hp_maximize := False\<rparr>) None (M\<lparr>grad := map ?ng (grad M)\<rparr>))"
    by (rule three_fields_eqI[OF r, where g = "\<lambda>i. grad M ! i"])
       (rule impl_lp_maximize_cells[OF neg_exact mul_m1(1) fits(1) part])
  have 2: "param (adam_fused_step_impl_fp D A2 mode w shards (hp2\<lparr>hp_maximize := True\<rparr>) None M2) =
      param (adam_fused_step_impl_fp D A2 mode w shards (hp2\<lparr>hp_maximize := False\<rparr>) None (M2\<lparr>grad := map (fneg A2) (grad M2)\<rparr>)) \<and>
    exp_avg (adam_fused_step_impl_fp D A2 mode w shards (hp2\<lparr>hp_maximize := True\<rparr>) None M2) =
      exp_avg (adam_fused_step_impl_fp D A2 mode w shards (hp2\<lparr>hp_maximize := False\<rparr>) None (M2\<lparr>grad := map (fneg A2) (grad M2)\<rparr>)) \<and>
    exp_avg_sq (adam_fused_step_impl_fp D A2 mode w shards (hp2\<lparr>hp_maximize := True\<rparr>) None M2) =
      exp_avg_sq (adam_fused_step_impl_fp D A2 mode w shards (hp2\<lparr>hp_maximize := False\<rparr>) None (M2\<lparr>grad := map (fneg A2) (grad M2)\<rparr>))"
    by (rule three_fields_eqI[OF r2, where g = "\<lambda>i. grad M2 ! i"])
       (rule impl_fp_maximize_cells[OF mul_m1(2) fits(2) part])
  show ?thesis unfolding Let_def using 1 2 by blast
qed

theorem maximize_symmetry_witness:
  "is_partition 0 2 [(0, 1), (1, 2)] \<and> fits False 2 two_bufs \<and>
   (let R1 = adam_fused_step_impl_lp exact_dbl exact_ops ORIGINAL 8 [(0, 1), (1, 2)]
               ((sample_hp 0 False False)\<lparr>hp_maximize := True\<rparr>) None two_bufs;
        R2 = adam_fused_step_impl_lp exact_dbl exact_ops ORIGINAL 8 [(0, 1), (1, 2)]
               ((sample_hp 0 False False)\<lparr>hp_maximize := False\<rparr>) None
               (two_bufs\<lparr>grad := map (\<lambda>g. to_scalar exact_ops (fneg exact_ops (to_opmath exact_ops g))) (grad two_bufs)\<rparr>)
    in param R1 = param R2 \<and> exp_avg R1 = exp_avg R2 \<and> exp_avg_sq R1 = exp_avg_sq R2)"
proof -
  have f: "fits (hp_amsgrad (sample_hp 0 False False)) 2 two_bufs"
    by (simp add: sample_facts)
  have n: "to_opmath exact_ops (to_scalar exact_ops (fneg exact_ops (to_opmath exact_ops x))) =
      fneg exact_ops (to_opmath exact_ops x)" for x
    by (simp add: exact_ops_def)
  have m: "fmul exact_ops y (minus_one exact_ops) = fneg exact_ops y" for y
    by (simp add: exact_ops_def)
  from maximize_symmetry[OF sample_facts(1) f f n m m, of exact_dbl ORIGINAL 8 8]
  show ?thesis using sample_facts(1,2) by (intro conjI) (assumption | rule conjunct1)+
qed

text \<open>
  C8. The claim has the four per-step scalars computed in double precision. The square
  root of the second bias correction is not: the source declares \<open>bias_correction2\<close>
  as \<open>opmath_t\<close> and takes \<open>std::sqrt\<close> of that, in single precision for Half,
  BFloat16 and float storage. With the default hyperparameters at the first step
  (\<open>beta2 = 0.999\<close>, \<open>step = 1\<close>) the kernel passes \<open>8488675 / 2^28\<close> to the math
  layer, where the square root taken in double precision and then converted to float is
  \<open>8488674 / 2^28\<close>.
\<close>

theorem sqrt_taken_in_single_precision:
  "bias_correction2_sqrt (step_scalars ieee_dbl ieee_single default_hp None) = 8488675 / 2 ^ 28 \<and>
   bias_correction2_sqrt_in_double ieee_dbl (\<lambda>x. round_to 53 (sqrt x)) default_hp = 8488674 / 2 ^ 28 \<and>
   bias_correction2_sqrt (step_scalars ieee_dbl ieee_single default_hp None) \<noteq>
     bias_correction2_sqrt_in_double ieee_dbl (\<lambda>x. round_to 53 (sqrt x)) default_hp"
proof -
  have 1: "bias_correction2_sqrt (step_scalars ieee_dbl ieee_single default_hp None) = 8488675 / 2 ^ 28"
    unfolding step_scalars_sqrt default_bias_correction2
    unfolding ieee_dbl_def ieee_single_def dbl_ops.select_convs fp_ops.select_convs
      narrow_bias_correction2 single_sqrt_value ..
  have 2: "bias_correction2_sqrt_in_double ieee_dbl (\<lambda>x. round_to 53 (sqrt x)) default_hp = 8488674 / 2 ^ 28"
    unfolding bias_correction2_sqrt_in_double_def default_bias_correction2
    unfolding ieee_dbl_def dbl_ops.select_convs double_sqrt_value narrow_double_sqrt ..
  show ?thesis unfolding 1 2 by simp
qed

text \<open>
  C8, as amended. \<open>step_size\<close> is \<open>lr / (1 - beta1^step)\<close> computed in double
  precision and then converted to \<open>opmath_t\<close>; \<open>bias_correction2\<close> is
  \<open>1 - beta2^step\<close> computed in double precision and then converted to \<open>opmath_t\<close>;
  \<open>bias_correction2_sqrt\<close> is the square root, taken in \<open>opmath_t\<close>, of the converted
  \<open>bias_correction2\<close>. They are computed once, before the loop over the shards, and every
  element of every shard is computed from these same values. When \<open>opmath_t\<close> is double
  (the conversion changes nothing and the square root is that of doubles), the square
  root is the one taken in double precision.
\<close>

theorem per_step_scalars:
  fixes M :: "'s bufs" and A :: "('s, 'o) fp_ops" and D :: "('d, 'o) dbl_ops"
    and M2 :: "'o bufs" and A2 :: "('t, 'o) fp_ops" and D2 :: "('o, 'o) dbl_ops"
  shows "(let a = step_scalars D A hp gs in
      step_size a = narrow D (ddiv D (hp_lr hp) (dsub D (d_one D) (dpow D (hp_beta1 hp) (hp_step hp)))) \<and>
      bias_correction2 a = narrow D (dsub D (d_one D) (dpow D (hp_beta2 hp) (hp_step hp))) \<and>
      bias_correction2_sqrt a = fsqrt A (bias_correction2 a) \<and>
      (is_partition 0 N shards \<and> fits (hp_amsgrad hp) N M \<and> fits (hp_amsgrad hp) N M2 \<longrightarrow>
         (\<forall>i<N. \<exists>b e. b \<le> i \<and> i < e \<and> e \<le> N \<and>
            cell (adam_fused_step_impl_lp D A mode h shards hp gs M) i =
              math_cell_lp A mode a h b (e - b) (cell M) i) \<and>
         (\<forall>i<N. \<exists>b e. b \<le> i \<and> i < e \<and> e \<le> N \<and>
            cell (adam_fused_step_impl_fp D A2 mode w shards hp gs M2) i =
              math_cell_fp A2 mode (step_scalars D A2 hp gs) w b (e - b) (cell M2) i))) \<and>
     ((\<forall>x. narrow D2 x = x) \<and> fsqrt A2 = dsqrt \<longrightarrow>
        bias_correction2_sqrt (step_scalars D2 A2 hp2 gs) = bias_correction2_sqrt_in_double D2 dsqrt hp2)"
proof -
  have 1: "step_size (step_scalars D A hp gs) =
      narrow D (ddiv D (hp_lr hp) (dsub D (d_one D) (dpow D (hp_beta1 hp) (hp_step hp))))"
    "bias_correction2 (step_scalars D A hp gs) = narrow D (dsub D (d_one D) (dpow D (hp_beta2 hp) (hp_step hp)))"
    "bias_correction2_sqrt (step_scalars D A hp gs) = fsqrt A (bias_correction2 (step_scalars D A hp gs))"
    by (simp_all add: step_scalars_def Let_def)
  have 2: "\<exists>b e. b \<le> i \<and> i < e \<and> e \<le> N \<and>
            cell (adam_fused_step_impl_lp D A mode h shards hp gs M) i =
              math_cell_lp A mode (step_scalars D A hp gs) h b (e - b) (cell M) i"
    if "is_partition 0 N shards" "fits (hp_amsgrad hp) N M" "i < N" for i
    using impl_lp_cell_covered[OF that(2,1,3)] .
  have 3: "\<exists>b e. b \<le> i \<and> i < e \<and> e \<le> N \<and>
            cell (adam_fused_step_impl_fp D A2 mode w shards hp gs M2) i =
              math_cell_fp A2 mode (step_scalars D A2 hp gs) w b (e - b) (cell M2) i"
    if "is_partition 0 N shards" "fits (hp_amsgrad hp) N M2" "i < N" for i
    using impl_fp_cell_covered[OF that(2,1,3)] .
  have 4: "bias_correction2_sqrt (step_scalars D2 A2 hp2 gs) = bias_correction2_sqrt_in_double D2 dsqrt hp2"
    if "\<forall>x. narrow D2 x = x" "fsqrt A2 = dsqrt"
    using that by (simp add: step_scalars_def bias_correction2_sqrt_in_double_def Let_def)
  show ?thesis
    unfolding Let_def using 1 2 3 4 by blast
qed

theorem per_step_scalars_witness:
  "is_partition 0 2 [(0, 1), (1, 2)] \<and> fits False 2 two_bufs \<and>
   (\<exists>b e. b \<le> 1 \<and> 1 < e \<and> e \<le> 2 \<and>
      cell (adam_fused_step_impl_lp exact_dbl exact_ops ORIGINAL 8 [(0, 1), (1, 2)]
              (sample_hp 0 False False) None two_bufs) 1 =
        math_cell_lp exact_ops ORIGINAL (step_scalars exact_dbl exact_ops (sample_hp 0 False False) None)
          8 b (e - b) (cell two_bufs) 1) \<and>
   bias_correction2_sqrt (step_scalars exact_dbl exact_ops (sample_hp 0 False False) None) =
     bias_correction2_sqrt_in_double exact_dbl sqrt (sample_hp 0 False False)"
proof -
  have f: "fits (hp_amsgrad (sample_hp 0 False False)) 2 two_bufs"
    by (simp add: sample_facts)
  have n: "\<forall>x. narrow exact_dbl x = x" and s: "fsqrt exact_ops = sqrt"
    by (simp_all add: exact_dbl_def exact_ops_def)
  note t = per_step_scalars[where D = exact_dbl and A = exact_ops and hp = "sample_hp 0 False False"
      and gs = None and N = 2 and shards = "[(0, 1), (1, 2)]" and M = two_bufs and ?M2.0 = two_bufs
      and mode = ORIGINAL and h = 8 and ?A2.0 = exact_ops and w = 8 and ?D2.0 = exact_dbl
      and dsqrt = sqrt and ?hp2.0 = "sample_hp 0 False False", unfolded Let_def]
  from t have "is_partition 0 2 [(0, 1), (1, 2)] \<and> fits (hp_amsgrad (sample_hp 0 False False)) 2 two_bufs \<and>
      fits (hp_amsgrad (sample_hp 0 False False)) 2 two_bufs \<longrightarrow>
      (\<forall>i<2. \<exists>b e. b \<le> i \<and> i < e \<and> e \<le> 2 \<and>
          cell (adam_fused_step_impl_lp exact_dbl exact_ops ORIGINAL 8 [(0, 1), (1, 2)]
              (sample_hp 0 False False) None two_bufs) i =
          math_cell_lp exact_ops ORIGINAL (step_scalars exact_dbl exact_ops (sample_hp 0 False False) None)
            8 b (e - b) (cell two_bufs) i) \<and>
      (\<forall>i<2. \<exists>b e. b \<le> i \<and> i < e \<and> e \<le> 2 \<and>
          cell (adam_fused_step_impl_fp exact_dbl exact_ops ORIGINAL 8 [(0, 1), (1, 2)]
              (sample_hp 0 False False) None two_bufs) i =
          math_cell_fp exact_ops ORIGINAL (step_scalars exact_dbl exact_ops (sample_hp 0 False False) None)
            8 b (e - b) (cell two_bufs) i)"
    by blast
  with sample_facts(1) f
  have 1: "\<exists>b e. b \<le> 1 \<and> 1 < e \<and> e \<le> 2 \<and>
      cell (adam_fused_step_impl_lp exact_dbl exact_ops ORIGINAL 8 [(0, 1), (1, 2)]
              (sample_hp 0 False False) None two_bufs) 1 =
        math_cell_lp exact_ops ORIGINAL (step_scalars exact_dbl exact_ops (sample_hp 0 False False) None)
          8 b (e - b) (cell two_bufs) 1"
    by simp
  from t n s
  have 2: "bias_correction2_sqrt (step_scalars exact_dbl exact_ops (sample_hp 0 False False) None) =
     bias_correction2_sqrt_in_double exact_dbl sqrt (sample_hp 0 False False)"
    by blast
  show ?thesis using sample_facts(1,2) 1 2 by (intro conjI)
qed

text \<open>
  C9. Frame condition on \<open>grad\<close>. With a null \<open>grad_scale_ptr\<close> the kernel leaves the
  \<open>grad\<close> buffer as it was, in both specialisations and for any list of shards; with
  a non-null one, every element of \<open>grad\<close> is overwritten with its unscaled value.
\<close>

theorem grad_frame:
  fixes M :: "'s bufs" and A :: "('s, 'o) fp_ops"
    and M2 :: "'o bufs" and A2 :: "('t, 'o) fp_ops"
  shows "grad (adam_fused_step_impl_lp D A mode h shards hp None M) = grad M \<and>
     grad (adam_fused_step_impl_fp D A2 mode w shards hp2 None M2) = grad M2 \<and>
     (is_partition 0 N shards \<and> fits (hp_amsgrad hp) N M \<and> fits (hp_amsgrad hp2) N M2 \<longrightarrow>
        grad (adam_fused_step_impl_lp D A mode h shards hp (Some s) M)
          = map (\<lambda>g. to_scalar A (fdiv A (to_opmath A g) s)) (grad M) \<and>
        grad (adam_fused_step_impl_fp D A2 mode w shards hp2 (Some s) M2)
          = map (\<lambda>g. fdiv A2 g s) (grad M2))"
proof -
  have "grad (adam_fused_step_impl_lp D A mode h shards hp (Some s) M)
          = map (\<lambda>g. to_scalar A (fdiv A (to_opmath A g) s)) (grad M)"
    if a: "is_partition 0 N shards" "fits (hp_amsgrad hp) N M"
  proof (rule nth_equalityI)
    have "fits (hp_amsgrad hp) N (adam_fused_step_impl_lp D A mode h shards hp (Some s) M)"
      using impl_lp_cells[OF a(2,1)] by blast
    then show "length (grad (adam_fused_step_impl_lp D A mode h shards hp (Some s) M)) =
        length (map (\<lambda>g. to_scalar A (fdiv A (to_opmath A g) s)) (grad M))"
      using a(2) by (simp add: fits_def)
    then show "grad (adam_fused_step_impl_lp D A mode h shards hp (Some s) M) ! i =
        map (\<lambda>g. to_scalar A (fdiv A (to_opmath A g) s)) (grad M) ! i"
      if "i < length (grad (adam_fused_step_impl_lp D A mode h shards hp (Some s) M))" for i
      using that a impl_lp_grad_nth[OF a(2,1), of i] by (simp add: fits_def)
  qed
  moreover have "grad (adam_fused_step_impl_fp D A2 mode w shards hp2 (Some s) M2)
          = map (\<lambda>g. fdiv A2 g s) (grad M2)"
    if a: "is_partition 0 N shards" "fits (hp_amsgrad hp2) N M2"
  proof (rule nth_equalityI)
    have "fits (hp_amsgrad hp2) N (adam_fused_step_impl_fp D A2 mode w shards hp2 (Some s) M2)"
      using impl_fp_cells[OF a(2,1)] by blast
    then show "length (grad (adam_fused_step_impl_fp D A2 mode w shards hp2 (Some s) M2)) =
        length (map (\<lambda>g. fdiv A2 g s) (grad M2))"
      using a(2) by (simp add: fits_def)
    then show "grad (adam_fused_step_impl_fp D A2 mode w shards hp2 (Some s) M2) ! i =
        map (\<lambda>g. fdiv A2 g s) (grad M2) ! i"
      if "i < length (grad (adam_fused_step_impl_fp D A2 mode w shards hp2 (Some s) M2))" for i
      using that a impl_fp_grad_nth[OF a(2,1), of i] by (simp add: fits_def)
  qed
  ultimately show ?thesis
    by (simp add: impl_lp_grad_frame impl_fp_grad_frame)
qed

theorem grad_frame_witness:
  "is_partition 0 2 [(0, 1), (1, 2)] \<and> fits False 2 two_bufs \<and>
   grad (adam_fused_step_impl_lp exact_dbl exact_ops ORIGINAL 8 [(0, 1), (1, 2)]
          (sample_hp 0 False False) (Some 2) two_bufs) = [1, 2]"
proof -
  have f: "fits (hp_amsgrad (sample_hp 0 False False)) 2 two_bufs"
    by (simp add: sample_facts)
  from grad_frame[where D = exact_dbl and A = exact_ops and mode = ORIGINAL and h = 8
        and shards = "[(0, 1), (1, 2)]" and hp = "sample_hp 0 False False" and M = two_bufs
        and ?A2.0 = exact_ops and w = 8 and ?hp2.0 = "sample_hp 0 False False" and ?M2.0 = two_bufs
        and N = 2 and s = 2]
    sample_facts(1) f
  have "grad (adam_fused_step_impl_lp exact_dbl exact_ops ORIGINAL 8 [(0, 1), (1, 2)]
          (sample_hp 0 False False) (Some 2) two_bufs) = [1, 2]"
    by (simp add: exact_ops_def two_bufs_def)
  then show ?thesis using sample_facts(1,2) by (intro conjI)
qed

text \<open>
  C10. A call on zero elements changes nothing. \<open>adam_math\<close> called with \<open>size = 0\<close>
  runs neither loop and returns the five buffers as they are, whatever the buffers, the
  offset, the mode and the flags, in both specialisations; and when the element count of
  the kernel is \<open>0\<close>, every shard the runtime may form is empty, so the kernel returns
  the buffers unchanged, and so does the entry point.
\<close>

theorem zero_elements_noop:
  "adam_math_lp A mode a h p 0 M = M \<and>
   adam_math_fp A2 mode a2 w p 0 M2 = M2 \<and>
   (is_partition 0 0 shards \<longrightarrow>
      adam_fused_step_impl_lp D A mode h shards hp gs M = M \<and>
      adam_fused_step_impl_fp D2 A2 mode w shards hp2 gs2 M2 = M2 \<and>
      fused_adam_kernel_lp D A h shards pt gt mt vt xt hp gs mode =
        \<lparr>param = t_data pt, exp_avg = t_data mt, exp_avg_sq = t_data vt, grad = t_data gt,
         max_exp_avg_sq = t_data xt\<rparr> \<and>
      fused_adam_kernel_fp D2 A2 w shards pt2 gt2 mt2 vt2 xt2 hp2 gs2 mode =
        \<lparr>param = t_data pt2, exp_avg = t_data mt2, exp_avg_sq = t_data vt2, grad = t_data gt2,
         max_exp_avg_sq = t_data xt2\<rparr>)"
proof -
  have l: "adam_fused_step_impl_lp D A mode' h shards hp gs M' = M'" if "is_partition 0 0 shards" for mode' M'
    unfolding adam_fused_step_impl_lp_def
    by (rule parallel_for_zero[OF _ that]) (simp add: adam_math_lp_zero)
  have f: "adam_fused_step_impl_fp D2 A2 mode' w shards hp2 gs2 M'' = M''" if "is_partition 0 0 shards" for mode' M''
    unfolding adam_fused_step_impl_fp_def
    by (rule parallel_for_zero[OF _ that]) (simp add: adam_math_fp_zero)
  show ?thesis
    by (simp add: adam_math_lp_zero adam_math_fp_zero fused_adam_kernel_lp_def fused_adam_kernel_fp_def
        Let_def l f)
qed

theorem zero_elements_noop_witness:
  "is_partition 0 0 [(0, 0)] \<and>
   adam_fused_step_impl_lp exact_dbl exact_ops ADAMW 8 [(0, 0)] (sample_hp 1 True True) (Some 2) empty_bufs
     = empty_bufs \<and>
   adam_fused_step_impl_fp exact_dbl exact_ops ADAMW 8 [(0, 0)] (sample_hp 1 True True) (Some 2) empty_bufs
     = empty_bufs"
proof -
  have h: "is_partition 0 0 [(0, 0)]" by simp
  from zero_elements_noop[where A = exact_ops and mode = ADAMW and h = 8 and p = 0 and M = empty_bufs
      and ?A2.0 = exact_ops and w = 8 and ?M2.0 = empty_bufs and shards = "[(0, 0)]"
      and D = exact_dbl and hp = "sample_hp 1 True True" and gs = "Some 2" and ?D2.0 = exact_dbl
      and ?hp2.0 = "sample_hp 1 True True" and ?gs2.0 = "Some 2"]
  have "is_partition 0 0 [(0, 0)] \<longrightarrow>
      adam_fused_step_impl_lp exact_dbl exact_ops ADAMW 8 [(0, 0)] (sample_hp 1 True True) (Some 2) empty_bufs
        = empty_bufs \<and>
      adam_fused_step_impl_fp exact_dbl exact_ops ADAMW 8 [(0, 0)] (sample_hp 1 True True) (Some 2) empty_bufs
        = empty_bufs"
    by blast
  from mp[OF this h] h show ?thesis by (rule conjI[rotated])
qed


end
